theory Spec2Isabelle
  imports Main "HOL-Library.Word"
begin

section \<open>C strings and the library calls the driver uses\<close>

text \<open>
  A \<^verbatim>\<open>const char *\<close> argument is modelled by the list of characters in front of its
  terminating NUL; a pointer into it is an offset (\<open>nat\<close>), a possibly-NULL pointer an
  \<open>option\<close>. A character array (a buffer that is written in place) is the list of all its
  bytes, NUL bytes included; \<open>cstr\<close> reads the C string stored at its start.
\<close>

definition NUL :: char where
  "NUL = CHR 0x00"

definition ASCII_cCR :: char where
  "ASCII_cCR = CHR 0x0D"

definition ASCII_cLF :: char where
  "ASCII_cLF = CHR 0x0A"

definition ASCII_cCOMMA :: char where
  "ASCII_cCOMMA = CHR '',''"

definition ASCII_sCR :: string where
  "ASCII_sCR = [ASCII_cCR]"

definition cstr :: "char list \<Rightarrow> string" where
  "cstr bytes = takeWhile (\<lambda>c. c \<noteq> NUL) bytes"

text \<open>\<^verbatim>\<open>strstr(haystack, needle)\<close>: offset of the first occurrence, \<open>None\<close> for NULL.\<close>

fun strstr :: "string \<Rightarrow> string \<Rightarrow> nat option" where
  "strstr [] needle = (if needle = [] then Some 0 else None)"
| "strstr (c # cs) needle =
     (if take (length needle) (c # cs) = needle then Some 0
      else map_option Suc (strstr cs needle))"

text \<open>\<^verbatim>\<open>strstr(s + p, needle)\<close>, the result again an offset into \<open>s\<close>.\<close>

definition strstr_at :: "string \<Rightarrow> nat \<Rightarrow> string \<Rightarrow> nat option" where
  "strstr_at s p needle = map_option (\<lambda>k. p + k) (strstr (drop p s) needle)"

text \<open>\<^verbatim>\<open>strchr(s + p, c)\<close>; searching for NUL finds the terminator.\<close>

definition strchr_at :: "string \<Rightarrow> nat \<Rightarrow> char \<Rightarrow> nat option" where
  "strchr_at s p c =
     (if c = NUL then Some (max p (length s))
      else if c \<in> set (drop p s) then Some (p + length (takeWhile (\<lambda>x. x \<noteq> c) (drop p s)))
      else None)"

text \<open>
  \<^verbatim>\<open>strtol(s, &end, 10)\<close>: white space, an optional sign, decimal digits. The result is
  the value and the offset of \<^verbatim>\<open>end\<close>; without digits both are 0. The value saturates
  at the bounds of \<^verbatim>\<open>long\<close>, 32 bits wide on the Arduino targets the platform layer
  (\<^verbatim>\<open>platform/arduino-timing.cpp\<close>) is written for.
\<close>

definition isspace :: "char \<Rightarrow> bool" where
  "isspace c = (c = CHR '' '' \<or> (9 \<le> (of_char c :: nat) \<and> (of_char c :: nat) \<le> 13))"

definition isdigit :: "char \<Rightarrow> bool" where
  "isdigit c = (48 \<le> (of_char c :: nat) \<and> (of_char c :: nat) \<le> 57)"

fun dec_val :: "nat \<Rightarrow> string \<Rightarrow> nat" where
  "dec_val acc [] = acc"
| "dec_val acc (c # cs) = dec_val (10 * acc + ((of_char c :: nat) - 48)) cs"

definition LONG_MAX :: int where
  "LONG_MAX = 2147483647"

definition LONG_MIN :: int where
  "LONG_MIN = - 2147483648"

definition strtol :: "string \<Rightarrow> int \<times> nat" where
  "strtol s =
     (let ws = takeWhile isspace s;
          s1 = drop (length ws) s;
          neg = (take 1 s1 = ''-'');
          sgn = (if take 1 s1 = ''-'' \<or> take 1 s1 = ''+'' then 1 else 0);
          ds = takeWhile isdigit (drop sgn s1);
          v = (if neg then - int (dec_val 0 ds) else int (dec_val 0 ds))
      in if ds = [] then (0, 0)
         else (max LONG_MIN (min LONG_MAX v), length ws + sgn + length ds))"

section \<open>Results, faults and the constants of the driver's header\<close>

text \<open>
  \<^verbatim>\<open>actionResult_t\<close> is the 16-bit code the completion parsers return (the parser
  pointer taken by \<^verbatim>\<open>action_getResult\<close> has type
  \<^verbatim>\<open>uint16_t (*)(const char *response)\<close>).
\<close>

type_synonym actionResult_t = "16 word"

text \<open>
  Ways a call does not return normally: a NULL pointer is dereferenced, memory outside an
  object is accessed, \<^verbatim>\<open>ltem1_faultHandler\<close> is entered (the process stops), or a loop
  never ends.
\<close>

datatype abort = NullDeref | OutOfBounds | FaultHandler nat string | NoReturn

text \<open>
  The header \<^verbatim>\<open>ltem1c.h\<close> is not among the sources. The constants it gives the
  code are the fields of this record, and every function that uses one takes the record
  as its first argument.
\<close>

record ltem1c_h =
  ACTION_RESULT_PENDING :: actionResult_t
  ACTION_RESULT_SUCCESS :: actionResult_t
  ACTION_RESULT_ERROR :: actionResult_t
  ACTION_RESULT_TIMEOUT :: actionResult_t
  ACTION_DEFAULT_TIMEOUT_MILLIS :: "16 word"
  ACTION_INVOKE_CMDSTR_SZ :: nat
  IOP_RXCTRLBLK_COUNT :: nat
  IOP_RXCTRLBLK_VOID :: nat
  IOP_RXCTRLBLK_PRIMBUF_SIZE :: nat
  IOP_RXCTRLBLK_PRIMBUF_IRDCAP :: nat
  IOP_URC_STATEMSG_SZ :: nat
  IOP_TX_BUFFER_SZ :: nat
  SC16IS741A_FIFO_BUFFER_SZ :: nat
  MQTT_URC_PREFIXSZ :: nat
  MQTT_SUBTOPIC_MAXSZ :: nat
  MQTT_MESSAGE_MAXSZ :: nat
  ASCII_sMQTTTERM :: string

section \<open>Completion parsers (actions.c)\<close>

definition OK_COMPLETED_STRING :: string where
  "OK_COMPLETED_STRING = ''OK'' @ [ASCII_cCR, ASCII_cLF]"

definition ERROR_COMPLETED_STRING :: string where
  "ERROR_COMPLETED_STRING = ''ERROR'' @ [ASCII_cCR, ASCII_cLF]"

definition FAIL_COMPLETED_STRING :: string where
  "FAIL_COMPLETED_STRING = ''FAIL'' @ [ASCII_cCR, ASCII_cLF]"

definition CME_PREABLE :: string where
  "CME_PREABLE = ''+CME ERROR:''"

definition CME_PREABLE_SZ :: nat where
  "CME_PREABLE_SZ = 11"

text \<open>
  The loop \<^verbatim>\<open>while (searchPtr != NULL) { landmarkAt = searchPtr; searchPtr =
  strstr(searchPtr + landmarkSz, landmark); }\<close> of both parsers, entered with the first
  occurrence. It yields the final \<^verbatim>\<open>landmarkAt\<close>; \<open>None\<close> is the loop that never
  ends (a landmark whose \<^verbatim>\<open>uint8_t\<close> length is 0 is found again at the same place).
\<close>

partial_function (option) last_occurrence :: "string \<Rightarrow> string \<Rightarrow> nat \<Rightarrow> nat \<Rightarrow> nat option" where
  "last_occurrence response landmark landmarkSz searchPtr =
     (case strstr_at response (searchPtr + landmarkSz) landmark of
        None \<Rightarrow> Some searchPtr
      | Some nxt \<Rightarrow> last_occurrence response landmark landmarkSz nxt)"

declare last_occurrence.simps [code]

text \<open>
  \<^verbatim>\<open>action_gapResultParser\<close> from the line that fixes \<^verbatim>\<open>searchPtr\<close> on: the search for
  the terminator or, without one, for the standard responses.
\<close>

definition gapResultParser_from :: "ltem1c_h \<Rightarrow> string \<Rightarrow> nat \<Rightarrow> 8 word \<Rightarrow> string option \<Rightarrow> actionResult_t" where
  "gapResultParser_from K response searchPtr gap terminator =
     (let gapCheck = (\<lambda>terminatorAt.
            if searchPtr + unat gap \<le> terminatorAt then ACTION_RESULT_SUCCESS K
            else ACTION_RESULT_ERROR K)
      in case terminator of
           Some t \<Rightarrow>
             (case strstr_at response searchPtr t of
                Some terminatorAt \<Rightarrow> gapCheck terminatorAt
              | None \<Rightarrow> ACTION_RESULT_PENDING K)
         | None \<Rightarrow>
             (case strstr_at response searchPtr OK_COMPLETED_STRING of
                Some terminatorAt \<Rightarrow> gapCheck terminatorAt
              | None \<Rightarrow>
                 (case strstr_at response searchPtr CME_PREABLE of
                    Some terminatorAt \<Rightarrow>
                      word_of_int (fst (strtol (drop (terminatorAt + CME_PREABLE_SZ) response)))
                  | None \<Rightarrow>
                     (case strstr_at response searchPtr ERROR_COMPLETED_STRING of
                        Some terminatorAt \<Rightarrow> ACTION_RESULT_ERROR K
                      | None \<Rightarrow>
                         (case strstr_at response searchPtr FAIL_COMPLETED_STRING of
                            Some terminatorAt \<Rightarrow> ACTION_RESULT_ERROR K
                          | None \<Rightarrow> ACTION_RESULT_PENDING K)))))"

definition action_gapResultParser ::
  "ltem1c_h \<Rightarrow> string \<Rightarrow> string option \<Rightarrow> bool \<Rightarrow> 8 word \<Rightarrow> string option \<Rightarrow> abort + actionResult_t" where
  "action_gapResultParser K response landmark landmarkReqd gap terminator =
     (case landmark of
        None \<Rightarrow> Inr (gapResultParser_from K response 0 gap terminator)
      | Some lm \<Rightarrow>
         (let landmarkSz = length lm mod 256 in
          case strstr response lm of
            None \<Rightarrow>
              if landmarkReqd then Inr (ACTION_RESULT_PENDING K)
              else Inr (gapResultParser_from K response 0 gap terminator)
          | Some searchPtr \<Rightarrow>
             (case last_occurrence response lm landmarkSz searchPtr of
                None \<Rightarrow> Inl NoReturn
              | Some landmarkAt \<Rightarrow>
                  Inr (gapResultParser_from K response (landmarkAt + landmarkSz) gap terminator))))"

definition action_okResultParser :: "ltem1c_h \<Rightarrow> string \<Rightarrow> abort + actionResult_t" where
  "action_okResultParser K response = action_gapResultParser K response None False 0 None"

text \<open>
  The counting loop of \<^verbatim>\<open>action_tokenResultParser\<close>:
  \<^verbatim>\<open>while (delimitersFound < (minTokens - 1) && *next != '\0') { next = strchr(next + 1,
  delim); delimitersFound++; }\<close>. \<open>lim\<close> is \<^verbatim>\<open>minTokens - 1\<close> (an \<^verbatim>\<open>int\<close>),
  \<open>next\<close> is \<open>None\<close> once \<^verbatim>\<open>strchr\<close> has returned NULL, and reading \<^verbatim>\<open>*next\<close> then,
  or beyond the terminator, aborts.
\<close>

function token_loop :: "string \<Rightarrow> char \<Rightarrow> int \<Rightarrow> nat \<Rightarrow> nat option \<Rightarrow> abort + nat" where
  "token_loop response delim lim delimitersFound next =
     (if int delimitersFound < lim then
        (case next of
           None \<Rightarrow> Inl NullDeref
         | Some p \<Rightarrow>
            if length response < p then Inl OutOfBounds
            else if p = length response then Inr delimitersFound
            else token_loop response delim lim (delimitersFound + 1) (strchr_at response (p + 1) delim))
      else Inr delimitersFound)"
  by pat_completeness auto
termination
  by (relation "measure (\<lambda>(response, delim, lim, delimitersFound, next). nat (lim - int delimitersFound))") auto

declare token_loop.simps [simp del]

definition action_tokenResultParser ::
  "ltem1c_h \<Rightarrow> string \<Rightarrow> string \<Rightarrow> char \<Rightarrow> 8 word \<Rightarrow> abort + actionResult_t" where
  "action_tokenResultParser K response landmark delim minTokens =
     (let cme = (case strstr response CME_PREABLE of
                   Some cmeAt \<Rightarrow>
                     word_of_int (fst (strtol (drop (cmeAt + CME_PREABLE_SZ) response)))
                 | None \<Rightarrow> ACTION_RESULT_PENDING K)
      in case strstr response landmark of
           None \<Rightarrow> Inr cme
         | Some first \<Rightarrow>
            (let landmarkSz = length landmark mod 256 in
             case last_occurrence response landmark landmarkSz first of
               None \<Rightarrow> Inl NoReturn
             | Some landmarkAt \<Rightarrow>
                (case token_loop response delim (uint minTokens - 1) 0
                        (Some (landmarkAt + landmarkSz + 1)) of
                   Inl a \<Rightarrow> Inl a
                 | Inr delimitersFound \<Rightarrow>
                     if uint minTokens - 1 \<le> int delimitersFound then Inr (ACTION_RESULT_SUCCESS K)
                     else Inr cme)))"

section \<open>Driver state\<close>

text \<open>
  The owner tag of a receive control block. Its type is declared in the missing header;
  the code uses the tags below, and \<open>iopProcess_socket n\<close> stands for the tags that
  \<^verbatim>\<open>process <= iopProcess_socketMax\<close> accepts.
\<close>

datatype iopProcess =
  iopProcess_socket nat | iopProcess_command | iopProcess_allocated | iopProcess_void

datatype iopProtoDataMode =
  iopProtoDataMode_idle | iopProtoDataMode_irdBytes | iopProtoDataMode_eotPhrase

datatype iopXfrResult_t =
  iopXfrResult_complete | iopXfrResult_truncated | iopXfrResult_incomplete

datatype qbg_readyState_t = qbg_readyState_notReady | qbg_readyState_appReady

text \<open>
  A receive control block. \<open>primBuf\<close> is the byte array, \<open>primBufData\<close> an offset into
  it. The extension buffer is kept by its size and its cursor, not by its bytes, which no
  operation modelled here reads back: \<open>extsnBufHead = Some n\<close> is an allocation of \<open>n\<close>
  bytes, \<open>extsnBufTail = Some t\<close> the cursor \<open>t\<close> bytes past its start, \<open>None\<close> is NULL.
\<close>

record iopRxCtrlBlock_t =
  process :: iopProcess
  rmtHostInData :: bool
  primBuf :: "char list"
  primBufData :: nat
  primDataSz :: "16 word"
  extsnBufHead :: "nat option"
  extsnBufTail :: "nat option"
  dataReady :: bool

text \<open>The transmit ring: the bytes queued, oldest first, and its size.\<close>

record cbuf_t =
  buffer :: "char list"
  maxlen :: nat

record iop_t =
  txBuf :: cbuf_t
  rxCtrlBlks :: "iopRxCtrlBlock_t list"
  rxHead :: nat
  rxTail :: nat
  cmdHead :: nat
  cmdTail :: nat
  socketHead :: "nat \<Rightarrow> nat"
  socketTail :: "nat \<Rightarrow> nat"
  protoDataMode :: iopProtoDataMode
  protoDataSocket :: iopProcess
  protoDataBytes :: "16 word"
  protoDataRxCtrlBlk :: nat
  protoDataEOTPhrase :: string
  protoDataEOTSz :: nat
  urcStateMsg :: "char list"

text \<open>
  The action slot. \<open>cmdStr\<close> is the byte array that doubles as the lock. The result window
  lies in the caller's response buffer: \<open>resultHead = Some mem\<close> holds the bytes of that
  buffer, \<open>resultTail\<close> is the cursor's offset from its start; \<open>None\<close> is NULL.
\<close>

record action_t =
  cmdStr :: "char list"
  cmdBrief :: "char list"
  resultHead :: "char list option"
  resultTail :: "nat option"
  resultSz :: "16 word"
  resultCode :: actionResult_t
  invokedAt :: "32 word"
  timeoutMillis :: "16 word"
  cmdCompleteParser_func :: "(string \<Rightarrow> abort + actionResult_t) option"
  irdPending :: iopProcess

text \<open>
  The global \<^verbatim>\<open>g_ltem1\<close>: the action pointer (\<open>None\<close> is NULL), the IOP state, the
  \<^verbatim>\<open>hasData\<close> flags of \<^verbatim>\<open>protocols->sockets\<close>, the ready state, and the bytes handed
  to the bridge by \<^verbatim>\<open>sc16is741a_write\<close>.
\<close>

record ltem1_t =
  action :: "action_t option"
  iop :: iop_t
  hasData :: "nat \<Rightarrow> bool"
  qbgReadyState :: qbg_readyState_t
  bridgeTx :: "char list"

text \<open>
  What the surroundings supply during one call: the clock reading of \<^verbatim>\<open>timing_millis\<close>,
  the bridge's transmit level register, the effect on the driver state of each
  \<^verbatim>\<open>timing_delay(ACTIONS_RETRY_INTERVAL); timing_yield();\<close> of the call, the third
  argument of \<^verbatim>\<open>iop_txSend\<close>, which the call in \<^verbatim>\<open>action_tryInvoke\<close> leaves out, and the
  bytes that lie in memory in front of \<^verbatim>\<open>primBuf\<close>, which the end-phrase test of the
  interrupt handler reads.

  During a wait the clock advances, interrupts are served and the platform's yield runs an
  application callback, so one wait may leave the driver as it is and a later one release
  the lock: \<open>timing_yield E k\<close> is the effect of the wait number \<open>k\<close> of the call (the
  first is number 0), any function of that number and of the state the wait starts in.
\<close>

record env_t =
  timing_millis :: "32 word"
  SC16IS741A_TXLVL :: "8 word"
  timing_yield :: "nat \<Rightarrow> ltem1_t \<Rightarrow> ltem1_t"
  deferSend :: bool
  beforePrimBuf :: "char list"

section \<open>Memory helpers\<close>

text \<open>The bytes \<^verbatim>\<open>strncpy(dst, src, n)\<close> writes: the string, cut or padded with NUL to \<open>n\<close>.\<close>

definition strncpy_bytes :: "char list \<Rightarrow> nat \<Rightarrow> char list" where
  "strncpy_bytes src n = take n (cstr src @ replicate n NUL)"

definition store :: "char list \<Rightarrow> nat \<Rightarrow> char list \<Rightarrow> char list" where
  "store mem off bytes = take off mem @ bytes @ drop (off + length bytes) mem"

text \<open>The C string at an offset of an array; without a terminator the read leaves the array.\<close>

definition c_string_at :: "char list \<Rightarrow> nat \<Rightarrow> abort + string" where
  "c_string_at mem off =
     (if NUL \<in> set (drop off mem) then Inr (cstr (drop off mem)) else Inl OutOfBounds)"

section \<open>Transmit path (iop.c)\<close>

text \<open>
  Modelled from the spec: \<^verbatim>\<open>cbuf_push\<close> and \<^verbatim>\<open>cbuf_pop\<close> are not among the sources.
  The spec calls the TxRing a bounded byte circular buffer with a single producer and a
  single consumer: a push is refused when \<open>maxlen\<close> bytes are queued, a pop takes the
  oldest byte.
\<close>

definition cbuf_push :: "cbuf_t \<Rightarrow> char \<Rightarrow> cbuf_t option" where
  "cbuf_push c d = (if length (buffer c) < maxlen c then Some (c\<lparr>buffer := buffer c @ [d]\<rparr>) else None)"

definition cbuf_pop :: "cbuf_t \<Rightarrow> (char \<times> cbuf_t) option" where
  "cbuf_pop c = (case buffer c of [] \<Rightarrow> None | d # ds \<Rightarrow> Some (d, c\<lparr>buffer := ds\<rparr>))"

fun txPut :: "cbuf_t \<Rightarrow> char list \<Rightarrow> nat \<times> cbuf_t" where
  "txPut c [] = (0, c)"
| "txPut c (d # ds) =
     (case cbuf_push c d of
        None \<Rightarrow> (0, c)
      | Some c' \<Rightarrow> (case txPut c' ds of (result, c'') \<Rightarrow> (Suc result, c'')))"

fun txTake :: "cbuf_t \<Rightarrow> nat \<Rightarrow> char list \<times> cbuf_t" where
  "txTake c 0 = ([], c)"
| "txTake c (Suc n) =
     (case cbuf_pop c of
        None \<Rightarrow> ([], c)
      | Some (d, c') \<Rightarrow> (case txTake c' n of (data, c'') \<Rightarrow> (d # data, c'')))"

definition txSendChunk :: "ltem1c_h \<Rightarrow> env_t \<Rightarrow> ltem1_t \<Rightarrow> ltem1_t" where
  "txSendChunk K E st =
     (let txAvail = unat (SC16IS741A_TXLVL E) in
      if txAvail = SC16IS741A_FIFO_BUFFER_SZ K then
        (case txTake (txBuf (iop st)) txAvail of
           (txData, c') \<Rightarrow>
             st\<lparr>iop := (iop st)\<lparr>txBuf := c'\<rparr>, bridgeTx := bridgeTx st @ txData\<rparr>)
      else st)"

definition iop_txSend :: "ltem1c_h \<Rightarrow> env_t \<Rightarrow> ltem1_t \<Rightarrow> char list \<Rightarrow> nat \<Rightarrow> bool \<Rightarrow> abort + ltem1_t" where
  "iop_txSend K E st sendData sendSz defer =
     (case txPut (txBuf (iop st)) (take sendSz sendData) of
        (queuedSz, c') \<Rightarrow>
          if queuedSz = sendSz then
            (let st' = st\<lparr>iop := (iop st)\<lparr>txBuf := c'\<rparr>\<rparr> in
             Inr (if \<not> defer then txSendChunk K E st' else st'))
          else Inl (FaultHandler 500 ''iop-tx buffer overflow''))"

section \<open>Receive control blocks and the command drain (iop.c)\<close>

definition IOP_RXCTRLBLK_ADVINDEX :: "ltem1c_h \<Rightarrow> nat \<Rightarrow> nat" where
  "IOP_RXCTRLBLK_ADVINDEX K INDX = (if Suc INDX = IOP_RXCTRLBLK_COUNT K then 0 else Suc INDX)"

text \<open>
  Modelled from the spec: the macro \<^verbatim>\<open>IOP_RXCTRLBLK_ISOCCUPIED\<close> is defined in the missing
  header. By the spec a slot's owner is \<open>free\<close> until the classifier opens it and again
  once it is reset: a slot is occupied when its owner tag is not the free one.
\<close>

definition IOP_RXCTRLBLK_ISOCCUPIED :: "ltem1_t \<Rightarrow> nat \<Rightarrow> bool" where
  "IOP_RXCTRLBLK_ISOCCUPIED st INDX = (process (rxCtrlBlks (iop st) ! INDX) \<noteq> iopProcess_void)"

definition rxResetCtrlBlock :: "ltem1c_h \<Rightarrow> ltem1_t \<Rightarrow> nat \<Rightarrow> ltem1_t" where
  "rxResetCtrlBlock K st bufIndx =
     (let rxCtrlBlk = rxCtrlBlks (iop st) ! bufIndx;
          b1 = rxCtrlBlk\<lparr>process := iopProcess_void,
                 primBuf := replicate (IOP_RXCTRLBLK_PRIMBUF_SIZE K + 1) NUL\<rparr>;
          b2 = (if extsnBufHead b1 \<noteq> None then b1\<lparr>extsnBufHead := None, extsnBufTail := None\<rparr> else b1)
      in st\<lparr>iop := (iop st)\<lparr>rxCtrlBlks := (rxCtrlBlks (iop st))[bufIndx := b2\<lparr>dataReady := False\<rparr>]\<rparr>\<rparr>)"

text \<open>
  \<^verbatim>\<open>iop_recvDoWork\<close>: the loop advances \<open>rxTail\<close> up to \<open>rxHead\<close> and latches
  \<^verbatim>\<open>hasData\<close> for every ready socket slot it passes. \<open>None\<close> is the loop that never ends.
\<close>

definition recvDoWork_latch :: "ltem1_t \<Rightarrow> ltem1_t" where
  "recvDoWork_latch st =
     (let b = rxCtrlBlks (iop st) ! rxTail (iop st) in
      case process b of
        iopProcess_socket s \<Rightarrow> if dataReady b then st\<lparr>hasData := (hasData st)(s := True)\<rparr> else st
      | _ \<Rightarrow> st)"

partial_function (option) recvDoWork_loop :: "ltem1c_h \<Rightarrow> ltem1_t \<Rightarrow> (abort + ltem1_t) option" where
  "recvDoWork_loop K st =
     (if rxTail (iop st) \<noteq> rxHead (iop st) then
        (let t = IOP_RXCTRLBLK_ADVINDEX K (rxTail (iop st)) in
         if length (rxCtrlBlks (iop st)) \<le> t then Some (Inl OutOfBounds)
         else recvDoWork_loop K (recvDoWork_latch (st\<lparr>iop := (iop st)\<lparr>rxTail := t\<rparr>\<rparr>)))
      else Some (Inr st))"

declare recvDoWork_loop.simps [code]

definition iop_recvDoWork :: "ltem1c_h \<Rightarrow> ltem1_t \<Rightarrow> abort + ltem1_t" where
  "iop_recvDoWork K st = (case recvDoWork_loop K st of None \<Rightarrow> Inl NoReturn | Some r \<Rightarrow> r)"

text \<open>
  The \<^verbatim>\<open>do ... while (true)\<close> of \<^verbatim>\<open>iop_rxGetCmdQueued\<close>. The caller's buffer is the array
  \<open>mem\<close>, \<^verbatim>\<open>recvBuf\<close> the offset \<open>off\<close> into it.
\<close>

partial_function (option) rxGetCmdQueued_loop ::
  "ltem1c_h \<Rightarrow> ltem1_t \<Rightarrow> nat \<Rightarrow> char list \<Rightarrow> nat \<Rightarrow> 16 word \<Rightarrow>
     (abort + iopXfrResult_t \<times> ltem1_t \<times> char list) option" where
  "rxGetCmdQueued_loop K st tail mem off recvBufSz =
     (if length (rxCtrlBlks (iop st)) \<le> tail then Some (Inl OutOfBounds)
      else
        (let b = rxCtrlBlks (iop st) ! tail;
             take_it = (IOP_RXCTRLBLK_ISOCCUPIED st tail \<and> process b = iopProcess_command);
             copySz = (if take_it then min recvBufSz (primDataSz b) else 0);
             mem' = (if take_it then store mem off (strncpy_bytes (primBuf b) (unat copySz)) else mem);
             st' = (if take_it then rxResetCtrlBlock K st tail else st)
         in if take_it \<and> length mem < off + unat copySz then Some (Inl OutOfBounds)
            else if take_it \<and> copySz < primDataSz b then Some (Inr (iopXfrResult_truncated, st', mem'))
            else if tail = cmdHead (iop st') then
              Some (Inr (iopXfrResult_complete, st'\<lparr>iop := (iop st')\<lparr>cmdTail := tail\<rparr>\<rparr>, mem'))
            else if IOP_RXCTRLBLK_ADVINDEX K tail = cmdTail (iop st') then
              Some (Inl (FaultHandler 500 ''iop_rxGetCmdQueued()-failed to find cmd data ''))
            else rxGetCmdQueued_loop K st' (IOP_RXCTRLBLK_ADVINDEX K tail) mem'
                   (off + unat copySz) (recvBufSz - copySz)))"

declare rxGetCmdQueued_loop.simps [code]

definition iop_rxGetCmdQueued ::
  "ltem1c_h \<Rightarrow> ltem1_t \<Rightarrow> char list \<Rightarrow> nat \<Rightarrow> 16 word \<Rightarrow> abort + iopXfrResult_t \<times> ltem1_t \<times> char list" where
  "iop_rxGetCmdQueued K st mem off recvBufSz =
     (case iop_recvDoWork K st of
        Inl a \<Rightarrow> Inl a
      | Inr st1 \<Rightarrow>
          if length (rxCtrlBlks (iop st1)) \<le> cmdHead (iop st1) then Inl OutOfBounds
          else if \<not> IOP_RXCTRLBLK_ISOCCUPIED st1 (cmdHead (iop st1)) then
            Inr (iopXfrResult_incomplete, st1, mem)
          else
            (case rxGetCmdQueued_loop K st1 (cmdTail (iop st1)) mem off recvBufSz of
               None \<Rightarrow> Inl NoReturn
             | Some r \<Rightarrow> r))"

section \<open>Action controller (actions.c)\<close>

definition ACTIONS_RETRY_MAX :: "8 word" where
  "ACTIONS_RETRY_MAX = 20"

text \<open>
  What \<^verbatim>\<open>calloc(1, sizeof(action_t))\<close> returns: every byte zero. (The size of
  \<^verbatim>\<open>cmdBrief\<close> is in the missing header; only its first byte is ever written.)
\<close>

definition action_calloc :: "ltem1c_h \<Rightarrow> action_t" where
  "action_calloc K =
     \<lparr>cmdStr = replicate (ACTION_INVOKE_CMDSTR_SZ K) NUL, cmdBrief = [NUL], resultHead = None,
      resultTail = None, resultSz = 0, resultCode = 0, invokedAt = 0, timeoutMillis = 0,
      cmdCompleteParser_func = None, irdPending = iopProcess_socket 0\<rparr>"

definition action_reset :: "ltem1c_h \<Rightarrow> ltem1_t \<Rightarrow> ltem1_t" where
  "action_reset K st =
     (let a = (case action st of None \<Rightarrow> action_calloc K | Some a \<Rightarrow> a) in
      st\<lparr>action := Some (a\<lparr>cmdStr := replicate (ACTION_INVOKE_CMDSTR_SZ K) NUL,
                             resultHead := None, resultTail := None,
                             resultCode := ACTION_RESULT_PENDING K,
                             invokedAt := 0, irdPending := iopProcess_void\<rparr>)\<rparr>)"

text \<open>The lock test \<^verbatim>\<open>g_ltem1->action->cmdStr[0] != NULL\<close>.\<close>

definition action_locked :: "action_t \<Rightarrow> bool" where
  "action_locked a = (cmdStr a \<noteq> [] \<and> hd (cmdStr a) \<noteq> NUL)"

text \<open>
  \<^verbatim>\<open>ip_receiverDoWork\<close> (protocols/ip.c) walks the socket table and changes nothing.
\<close>

definition ip_receiverDoWork :: "ltem1_t \<Rightarrow> ltem1_t" where
  "ip_receiverDoWork st = st"

text \<open>
  The retry loop of \<^verbatim>\<open>tryActionLock\<close>, entered at the test of the \<^verbatim>\<open>while\<close>. It returns
  whether the lock was seen clear, and the state then. \<^verbatim>\<open>retryCnt\<close> is also the number of
  waits the call has made so far.
\<close>

lemma word8_pred_less: "(w::8 word) \<noteq> 0 \<Longrightarrow> unat (w - 1) < unat w"
  by (simp add: unat_minus_one unat_gt_0)

lemma retry_measure:
  assumes "(retryCnt::8 word) + 1 \<noteq> 20"
  shows "unat (20 - 1 - (retryCnt + 1)) < unat (20 - 1 - retryCnt)"
proof -
  have "(20::8 word) - 1 - retryCnt \<noteq> 0"
  proof
    assume "(20::8 word) - 1 - retryCnt = 0"
    then have "retryCnt = 19" by simp
    with assms show False by simp
  qed
  then have "unat ((20::8 word) - 1 - retryCnt - 1) < unat ((20::8 word) - 1 - retryCnt)"
    by (rule word8_pred_less)
  moreover have "(20::8 word) - 1 - (retryCnt + 1) = 20 - 1 - retryCnt - 1"
    by (simp only: diff_diff_eq add.assoc)
  ultimately show ?thesis by (simp only:)
qed

function tryActionLock_retry :: "env_t \<Rightarrow> 8 word \<Rightarrow> ltem1_t \<Rightarrow> abort + bool \<times> ltem1_t" where
  "tryActionLock_retry E retryCnt st =
     (case action st of
        None \<Rightarrow> Inl NullDeref
      | Some a \<Rightarrow>
          if action_locked a then
            (if retryCnt + 1 = ACTIONS_RETRY_MAX then Inr (False, st)
             else tryActionLock_retry E (retryCnt + 1)
                    (ip_receiverDoWork (timing_yield E (unat retryCnt) st)))
          else Inr (True, st))"
  by pat_completeness auto
termination
proof (relation "measure (\<lambda>(E, retryCnt, st). unat ((20::8 word) - 1 - retryCnt))", goal_cases)
  case 1
  show ?case by simp
next
  case (2 E retryCnt st a)
  then have "retryCnt + 1 \<noteq> 20"
    by (simp add: ACTIONS_RETRY_MAX_def)
  from retry_measure [OF this] show ?case
    by simp
qed

declare tryActionLock_retry.simps [simp del]

definition tryActionLock_take :: "ltem1_t \<Rightarrow> abort + bool \<times> ltem1_t" where
  "tryActionLock_take st =
     (case action st of
        None \<Rightarrow> Inl NullDeref
      | Some a \<Rightarrow> Inr (True, st\<lparr>action := Some (a\<lparr>cmdStr := (cmdStr a)[0 := CHR ''*'']\<rparr>)\<rparr>))"

definition tryActionLock :: "env_t \<Rightarrow> ltem1_t \<Rightarrow> bool \<Rightarrow> abort + bool \<times> ltem1_t" where
  "tryActionLock E st retry =
     (case action st of
        None \<Rightarrow> Inl NullDeref
      | Some a \<Rightarrow>
          if action_locked a then
            (if retry then
               (case tryActionLock_retry E 0 st of
                  Inl x \<Rightarrow> Inl x
                | Inr (got, st') \<Rightarrow> if got then tryActionLock_take st' else Inr (False, st'))
             else Inr (False, st))
          else tryActionLock_take st)"

text \<open>
  \<^verbatim>\<open>strcat(cmdStr, ASCII_sCR)\<close> on the array: the carriage return and a new terminator
  are written at the end of the string, which must leave room for both.
\<close>

definition strcat_bytes :: "char list \<Rightarrow> string \<Rightarrow> abort + char list" where
  "strcat_bytes arr s =
     (if NUL \<in> set arr \<and> length (cstr arr) + length s + 1 \<le> length arr
      then Inr (store arr (length (cstr arr)) (s @ [NUL]))
      else Inl OutOfBounds)"

definition action_tryInvoke :: "ltem1c_h \<Rightarrow> env_t \<Rightarrow> ltem1_t \<Rightarrow> string \<Rightarrow> bool \<Rightarrow> abort + bool \<times> ltem1_t" where
  "action_tryInvoke K E st cmd retry =
     (case tryActionLock E st retry of
        Inl x \<Rightarrow> Inl x
      | Inr (got, st1) \<Rightarrow>
          if \<not> got then Inr (False, st1)
          else
            (let st2 = action_reset K st1 in
             case action st2 of
               None \<Rightarrow> Inl NullDeref
             | Some a \<Rightarrow>
                 (case strcat_bytes (strncpy_bytes cmd (ACTION_INVOKE_CMDSTR_SZ K)) ASCII_sCR of
                    Inl x \<Rightarrow> Inl x
                  | Inr arr \<Rightarrow>
                      (let st3 = st2\<lparr>action := Some (a\<lparr>cmdStr := arr, invokedAt := timing_millis E\<rparr>)\<rparr> in
                       case iop_txSend K E st3 (cstr arr) (length (cstr arr) mod 65536) (deferSend E) of
                         Inl x \<Rightarrow> Inl x
                       | Inr st4 \<Rightarrow> Inr (True, st4)))))"

definition action_sendData :: "ltem1c_h \<Rightarrow> env_t \<Rightarrow> ltem1_t \<Rightarrow> char list \<Rightarrow> 16 word \<Rightarrow> abort + ltem1_t" where
  "action_sendData K E st data dataSz =
     (case action st of
        None \<Rightarrow> Inl NullDeref
      | Some a \<Rightarrow>
          iop_txSend K E
            (st\<lparr>action := Some (a\<lparr>cmdCompleteParser_func := Some (action_okResultParser K),
                                   invokedAt := timing_millis E\<rparr>)\<rparr>)
            data (unat dataSz) (deferSend E))"

text \<open>
  \<^verbatim>\<open>action_getResult\<close> up to the parser call: the window is installed on the first call,
  the queued command fragments are drained to the window's tail, and after a drain the
  parser runs over the whole window. The result is the parser's code (Pending without a
  drain) and the state so far.
\<close>

definition getResult_gather ::
  "ltem1c_h \<Rightarrow> ltem1_t \<Rightarrow> char list \<Rightarrow> 16 word \<Rightarrow> 16 word \<Rightarrow>
     (string \<Rightarrow> abort + actionResult_t) option \<Rightarrow> abort + actionResult_t \<times> ltem1_t" where
  "getResult_gather K st response responseSz timeout customCmdCompleteParser_func =
     (case action st of
        None \<Rightarrow> Inl NullDeref
      | Some a0 \<Rightarrow>
         (let a1 = (if resultHead a0 = None then
                      a0\<lparr>resultHead := Some response, resultTail := Some 0, resultSz := responseSz,
                         timeoutMillis := (if timeout = 0 then ACTION_DEFAULT_TIMEOUT_MILLIS K else timeout),
                         cmdCompleteParser_func :=
                           Some (case customCmdCompleteParser_func of
                                   None \<Rightarrow> action_okResultParser K
                                 | Some f \<Rightarrow> f)\<rparr>
                    else a0)
          in case (resultHead a1, resultTail a1) of
               (Some mem, Some tail) \<Rightarrow>
                 (case iop_rxGetCmdQueued K (st\<lparr>action := Some a1\<rparr>) mem tail (resultSz a1) of
                    Inl x \<Rightarrow> Inl x
                  | Inr (rxResult, st1, mem1) \<Rightarrow>
                      if rxResult = iopXfrResult_complete \<or> rxResult = iopXfrResult_truncated then
                        (case c_string_at mem1 tail of
                           Inl x \<Rightarrow> Inl x
                         | Inr fragment \<Rightarrow>
                            (let resultSz8 = length fragment mod 256;
                                 a2 = a1\<lparr>resultHead := Some mem1,
                                         resultSz := resultSz a1 - of_nat resultSz8,
                                         resultTail := Some (tail + resultSz8)\<rparr>
                             in case cmdCompleteParser_func a2 of
                                  None \<Rightarrow> Inl NullDeref
                                | Some parser \<Rightarrow>
                                   (case c_string_at mem1 0 of
                                      Inl x \<Rightarrow> Inl x
                                    | Inr text \<Rightarrow>
                                       (case parser text of
                                          Inl x \<Rightarrow> Inl x
                                        | Inr parserResult \<Rightarrow>
                                            Inr (parserResult, st1\<lparr>action := Some a2\<rparr>)))))
                      else Inr (ACTION_RESULT_PENDING K, st1\<lparr>action := Some a1\<rparr>))
             | _ \<Rightarrow> Inl NullDeref))"

text \<open>The assignment \<^verbatim>\<open>g_ltem1->action->cmdStr[0] = NULL\<close>, which releases the lock.\<close>

definition action_release :: "ltem1_t \<Rightarrow> ltem1_t" where
  "action_release st =
     (case action st of
        None \<Rightarrow> st
      | Some a \<Rightarrow> st\<lparr>action := Some (a\<lparr>cmdStr := (cmdStr a)[0 := NUL]\<rparr>)\<rparr>)"

definition action_getResult ::
  "ltem1c_h \<Rightarrow> env_t \<Rightarrow> ltem1_t \<Rightarrow> char list \<Rightarrow> 16 word \<Rightarrow> 16 word \<Rightarrow>
     (string \<Rightarrow> abort + actionResult_t) option \<Rightarrow> bool \<Rightarrow> abort + actionResult_t \<times> ltem1_t" where
  "action_getResult K E st response responseSz timeout customCmdCompleteParser_func autoClose =
     (case getResult_gather K st response responseSz timeout customCmdCompleteParser_func of
        Inl x \<Rightarrow> Inl x
      | Inr (parserResult, st1) \<Rightarrow>
         (case action st1 of
            None \<Rightarrow> Inl NullDeref
          | Some a \<Rightarrow>
              if ACTION_RESULT_SUCCESS K \<le> parserResult then
                Inr (parserResult,
                     if autoClose \<or> parserResult \<noteq> ACTION_RESULT_SUCCESS K then action_release st1 else st1)
              else if ucast (timeoutMillis a) < timing_millis E - invokedAt a then
                Inr (ACTION_RESULT_TIMEOUT K, action_release st1)
              else Inr (ACTION_RESULT_PENDING K, st1)))"

definition action_cancel :: "ltem1c_h \<Rightarrow> ltem1_t \<Rightarrow> ltem1_t" where
  "action_cancel K st = (action_reset K st)\<lparr>action := None\<rparr>"

section \<open>Receive classification in the interrupt handler (iop.c)\<close>

text \<open>
  The \<^verbatim>\<open>do ... while (IOP_RXCTRLBLK_ISOCCUPIED(bufIndx))\<close> of \<^verbatim>\<open>rxOpenCtrlBlock\<close>.
\<close>

partial_function (option) rxOpenCtrlBlock_loop :: "ltem1c_h \<Rightarrow> ltem1_t \<Rightarrow> nat \<Rightarrow> (abort + nat) option" where
  "rxOpenCtrlBlock_loop K st bufIndx =
     (if IOP_RXCTRLBLK_ADVINDEX K bufIndx = rxHead (iop st) then
        Some (Inl (FaultHandler 500 ''iop-rxOpenCtrlBlock()-no ctrlBlk available''))
      else if length (rxCtrlBlks (iop st)) \<le> IOP_RXCTRLBLK_ADVINDEX K bufIndx then Some (Inl OutOfBounds)
      else if IOP_RXCTRLBLK_ISOCCUPIED st (IOP_RXCTRLBLK_ADVINDEX K bufIndx) then
        rxOpenCtrlBlock_loop K st (IOP_RXCTRLBLK_ADVINDEX K bufIndx)
      else Some (Inr (IOP_RXCTRLBLK_ADVINDEX K bufIndx)))"

declare rxOpenCtrlBlock_loop.simps [code]

definition rxOpenCtrlBlock :: "ltem1c_h \<Rightarrow> ltem1_t \<Rightarrow> abort + nat \<times> ltem1_t" where
  "rxOpenCtrlBlock K st =
     (case rxOpenCtrlBlock_loop K st (rxHead (iop st)) of
        None \<Rightarrow> Inl NoReturn
      | Some (Inl x) \<Rightarrow> Inl x
      | Some (Inr bufIndx) \<Rightarrow>
          Inr (bufIndx,
               st\<lparr>iop := (iop st)\<lparr>
                     rxCtrlBlks := (rxCtrlBlks (iop st))
                        [bufIndx := (rxCtrlBlks (iop st) ! bufIndx)\<lparr>process := iopProcess_allocated\<rparr>],
                     rxHead := bufIndx\<rparr>\<rparr>))"

text \<open>
  \<^verbatim>\<open>rxConfigureIrdBuffer\<close> on one control block: the declared size is read with
  \<^verbatim>\<open>strtol\<close> and kept in 16 bits. (\<^verbatim>\<open>calloc\<close> is taken to succeed.)
\<close>

definition rxConfigureIrdBuffer :: "ltem1c_h \<Rightarrow> iopRxCtrlBlock_t \<Rightarrow> nat \<Rightarrow> 16 word \<times> iopRxCtrlBlock_t" where
  "rxConfigureIrdBuffer K rxCtrlBlk dataSzAt =
     (case strtol (cstr (drop dataSzAt (primBuf rxCtrlBlk))) of
        (v, e) \<Rightarrow>
          (let dataLen = (word_of_int v :: 16 word);
               b1 = rxCtrlBlk\<lparr>primBufData := dataSzAt + e, primDataSz := dataLen\<rparr>
           in (dataLen,
               if IOP_RXCTRLBLK_PRIMBUF_IRDCAP K < unat dataLen then
                 b1\<lparr>extsnBufHead := Some (unat dataLen),
                    extsnBufTail := Some (unat (primDataSz b1))\<rparr>
               else b1)))"

text \<open>The decimal digits \<^verbatim>\<open>snprintf\<close> prints for \<^verbatim>\<open>%d\<close>.\<close>

function dec_string :: "nat \<Rightarrow> string" where
  "dec_string n =
     (if n < 10 then [char_of (48 + n)] else dec_string (n div 10) @ [char_of (48 + n mod 10)])"
  by pat_completeness auto
termination
  by (relation "measure id") auto

declare dec_string.simps [simp del]

definition requestProtoData :: "ltem1c_h \<Rightarrow> env_t \<Rightarrow> ltem1_t \<Rightarrow> 8 word \<Rightarrow> abort + ltem1_t" where
  "requestProtoData K E st socketId =
     (let st1 = st\<lparr>iop := (iop st)\<lparr>protoDataSocket := iopProcess_socket (unat socketId)\<rparr>\<rparr>;
          irdCmd = take 11 (''AT+QIRD='' @ dec_string (unat socketId))
      in case action_tryInvoke K E st1 irdCmd False of
           Inl x \<Rightarrow> Inl x
         | Inr (invoked, st2) \<Rightarrow> Inr st2)"

definition set_rxCtrlBlk :: "ltem1_t \<Rightarrow> nat \<Rightarrow> iopRxCtrlBlock_t \<Rightarrow> ltem1_t" where
  "set_rxCtrlBlk st rxIndx b = st\<lparr>iop := (iop st)\<lparr>rxCtrlBlks := (rxCtrlBlks (iop st))[rxIndx := b]\<rparr>\<rparr>"

definition URC_IPRECV :: string where
  "URC_IPRECV = ''+QIURC: '' @ [CHR 0x22] @ ''recv''"

definition URC_SSLRECV :: string where
  "URC_SSLRECV = ''+QSSLURC: '' @ [CHR 0x22] @ ''recv''"

definition rxParseExtended :: "ltem1c_h \<Rightarrow> env_t \<Rightarrow> ltem1_t \<Rightarrow> nat \<Rightarrow> abort + ltem1_t" where
  "rxParseExtended K E st rxIndx =
     (let rxCtrlBlock = rxCtrlBlks (iop st) ! rxIndx;
          urcRecv = (\<lambda>hdrSz.
            (let socketId = (word_of_int (fst (strtol (cstr (drop hdrSz (primBuf rxCtrlBlock))))) :: 8 word)
             in case requestProtoData K E st socketId of
                  Inl x \<Rightarrow> Inl x
                | Inr st1 \<Rightarrow>
                    Inr (rxResetCtrlBlock K
                          (st1\<lparr>iop := (iop st1)\<lparr>socketTail := (socketTail (iop st1))(unat socketId := rxIndx)\<rparr>\<rparr>)
                          rxIndx)))
      in if take 13 (drop 2 (primBuf rxCtrlBlock)) = URC_IPRECV then urcRecv 13
         else if take 15 (drop 2 (primBuf rxCtrlBlock)) = URC_SSLRECV then urcRecv 15
         else if take 8 (drop 2 (primBuf rxCtrlBlock)) = ''+QIURC: '' then
           (if urcStateMsg (iop st) \<noteq> [] \<and> hd (urcStateMsg (iop st)) \<noteq> NUL then
              Inl (FaultHandler 500 ''IOP-URC state msg buffer overflow.'')
            else
              Inr (set_rxCtrlBlk
                    (st\<lparr>iop := (iop st)\<lparr>urcStateMsg :=
                           store (urcStateMsg (iop st)) 0
                             (strncpy_bytes (drop 8 (primBuf rxCtrlBlock)) (IOP_URC_STATEMSG_SZ K))\<rparr>\<rparr>)
                    rxIndx (rxCtrlBlock\<lparr>process := iopProcess_void\<rparr>)))
         else if qbgReadyState st \<noteq> qbg_readyState_appReady \<and>
                 take 9 (drop 2 (primBuf rxCtrlBlock)) = ''APP RDY'' @ [ASCII_cCR, ASCII_cLF] then
           Inr (set_rxCtrlBlk (st\<lparr>qbgReadyState := qbg_readyState_appReady\<rparr>)
                  rxIndx (rxCtrlBlock\<lparr>process := iopProcess_void\<rparr>))
         else
           Inr (set_rxCtrlBlk (st\<lparr>iop := (iop st)\<lparr>cmdHead := rxIndx\<rparr>\<rparr>)
                  rxIndx (rxCtrlBlock\<lparr>process := iopProcess_command\<rparr>)))"

text \<open>
  \<^verbatim>\<open>socketHead[g_ltem1->iop->protoDataSocket] = rxIndx\<close>: only a socket tag is an index
  of the array.
\<close>

definition set_socketHead :: "ltem1_t \<Rightarrow> nat \<Rightarrow> abort + ltem1_t" where
  "set_socketHead st rxIndx =
     (case protoDataSocket (iop st) of
        iopProcess_socket s \<Rightarrow> Inr (st\<lparr>iop := (iop st)\<lparr>socketHead := (socketHead (iop st))(s := rxIndx)\<rparr>\<rparr>)
      | _ \<Rightarrow> Inl OutOfBounds)"

definition IRDRECV_HDRSZ :: nat where
  "IRDRECV_HDRSZ = 7"

definition SSLRECV_HDRSZ :: nat where
  "SSLRECV_HDRSZ = 11"

definition MQTTRECV_HDRSZ :: nat where
  "MQTTRECV_HDRSZ = 10"

definition rxParseImmediate :: "ltem1c_h \<Rightarrow> env_t \<Rightarrow> ltem1_t \<Rightarrow> nat \<Rightarrow> abort + ltem1_t" where
  "rxParseImmediate K E st rxIndx =
     (let rxCtrlBlk = rxCtrlBlks (iop st) ! rxIndx in
      if take IRDRECV_HDRSZ (cstr (drop 2 (primBuf rxCtrlBlk))) = ''+QIRD: '' \<or>
         take SSLRECV_HDRSZ (cstr (drop 2 (primBuf rxCtrlBlk))) = ''+QSSLRECV: '' then
        (case action st of
           None \<Rightarrow> Inl NullDeref
         | Some a \<Rightarrow>
            (let st0 = st\<lparr>action := Some (a\<lparr>cmdBrief := (cmdBrief a)[0 := NUL]\<rparr>)\<rparr> in
             case rxConfigureIrdBuffer K rxCtrlBlk
                    ((if take 1 (drop 4 (primBuf rxCtrlBlk)) = ''I'' then IRDRECV_HDRSZ else SSLRECV_HDRSZ) + 2) of
               (irdBytes, b1) \<Rightarrow>
                 if irdBytes = 0 then
                   Inr (set_rxCtrlBlk
                         (st0\<lparr>iop := (iop st0)\<lparr>protoDataMode := iopProtoDataMode_idle,
                                                protoDataSocket := iopProcess_void\<rparr>\<rparr>)
                         rxIndx (b1\<lparr>process := iopProcess_void\<rparr>))
                 else
                   (let b2 = b1\<lparr>rmtHostInData := (take 1 (drop (primBufData b1) (primBuf b1)) = [ASCII_cCOMMA]),
                               primBufData := primBufData b1 + 2,
                               process := protoDataSocket (iop st0)\<rparr>;
                        st1 = (if extsnBufHead b2 = None then
                                 set_rxCtrlBlk
                                   (st0\<lparr>iop := (iop st0)\<lparr>protoDataMode := iopProtoDataMode_idle\<rparr>\<rparr>)
                                   rxIndx (b2\<lparr>dataReady := True\<rparr>)
                               else
                                 set_rxCtrlBlk
                                   (st0\<lparr>iop := (iop st0)\<lparr>protoDataMode := iopProtoDataMode_irdBytes,
                                                          protoDataBytes := irdBytes,
                                                          protoDataRxCtrlBlk := rxIndx\<rparr>\<rparr>)
                                   rxIndx (b2\<lparr>dataReady := False\<rparr>))
                    in case set_socketHead st1 rxIndx of
                         Inl x \<Rightarrow> Inl x
                       | Inr st2 \<Rightarrow> rxParseExtended K E st2 rxIndx)))
      else if take MQTTRECV_HDRSZ (cstr (drop 2 (primBuf rxCtrlBlk))) = ''+QMTRECV: '' then
        (if unat (primDataSz rxCtrlBlk) < 3 then Inl OutOfBounds
         else
           (let b1 = rxCtrlBlk\<lparr>extsnBufHead :=
                        Some (MQTT_URC_PREFIXSZ K + MQTT_SUBTOPIC_MAXSZ K + MQTT_MESSAGE_MAXSZ K + 6),
                      extsnBufTail := Some (unat (primDataSz rxCtrlBlk)),
                      dataReady := False\<rparr>;
                st1 = st\<lparr>iop := (iop st)\<lparr>protoDataMode := iopProtoDataMode_eotPhrase,
                                        protoDataEOTPhrase := ASCII_sMQTTTERM K,
                                        protoDataEOTSz := 3\<rparr>\<rparr>;
                termTest = cstr (drop (unat (primDataSz rxCtrlBlk) - 3) (primBuf rxCtrlBlk));
                st2 = (if take 3 (ASCII_sMQTTTERM K) \<noteq> take 3 termTest then
                         set_rxCtrlBlk
                           (st1\<lparr>iop := (iop st1)\<lparr>protoDataMode := iopProtoDataMode_idle\<rparr>\<rparr>)
                           rxIndx (b1\<lparr>dataReady := True\<rparr>)
                       else set_rxCtrlBlk st1 rxIndx b1)
            in rxParseExtended K E st2 rxIndx))
      else rxParseExtended K E st rxIndx)"

text \<open>
  One pass through the receive branch of \<^verbatim>\<open>interruptCallbackISR\<close> (interrupt source 2 or
  6 with \<^verbatim>\<open>rxLevel > 0\<close>): \<open>chunk\<close> are the \<^verbatim>\<open>rxLevel\<close> bytes that \<^verbatim>\<open>sc16is741a_read\<close>
  delivers. The polling of the bridge's registers around it is not modelled. The bytes of
  a continuation chunk go to the extension buffer at its cursor: the model moves the
  cursor and does not compare it with the size of the allocation.
\<close>

definition interruptCallbackISR_rx :: "ltem1c_h \<Rightarrow> env_t \<Rightarrow> ltem1_t \<Rightarrow> char list \<Rightarrow> abort + ltem1_t" where
  "interruptCallbackISR_rx K E st chunk =
     (let rxLevel = length chunk;
          finish = (\<lambda>rxIndx st1.
            case rxParseImmediate K E st1 rxIndx of
              Inl x \<Rightarrow> Inl x
            | Inr st2 \<Rightarrow>
                Inr (if dataReady (rxCtrlBlks (iop st2) ! rxIndx)
                     then st2\<lparr>iop := (iop st2)\<lparr>protoDataMode := iopProtoDataMode_idle\<rparr>\<rparr>
                     else st2))
      in if protoDataMode (iop st) = iopProtoDataMode_idle then
           (case rxOpenCtrlBlock K st of
              Inl x \<Rightarrow> Inl x
            | Inr (rxIndx, st1) \<Rightarrow>
               (let b = rxCtrlBlks (iop st1) ! rxIndx in
                if length (primBuf b) < rxLevel then Inl OutOfBounds
                else finish rxIndx
                       (set_rxCtrlBlk st1 rxIndx
                          (b\<lparr>primBuf := store (primBuf b) 0 chunk,
                             primDataSz := of_nat rxLevel,
                             dataReady := True\<rparr>))))
         else
           (let rxIndx = protoDataRxCtrlBlk (iop st) in
            if length (rxCtrlBlks (iop st)) \<le> rxIndx then Inl OutOfBounds
            else
              (let b = rxCtrlBlks (iop st) ! rxIndx in
               case extsnBufTail b of
                 None \<Rightarrow> Inl NullDeref
               | Some t \<Rightarrow>
                  (let b1 = b\<lparr>extsnBufTail := Some (t + rxLevel)\<rparr> in
                   if protoDataMode (iop st) = iopProtoDataMode_irdBytes then
                     (let bytes = protoDataBytes (iop st) - of_nat rxLevel in
                      finish rxIndx
                        (set_rxCtrlBlk
                           (st\<lparr>iop := (iop st)\<lparr>protoDataBytes := bytes,
                                                protoDataMode := iopProtoDataMode_idle\<rparr>\<rparr>)
                           rxIndx (b1\<lparr>dataReady := (bytes = 0)\<rparr>)))
                   else
                     (let termTest = cstr (beforePrimBuf E @ primBuf b1) in
                      if take (protoDataEOTSz (iop st)) (protoDataEOTPhrase (iop st))
                           \<noteq> take (protoDataEOTSz (iop st)) termTest then
                        finish rxIndx
                          (set_rxCtrlBlk
                             (st\<lparr>iop := (iop st)\<lparr>protoDataMode := iopProtoDataMode_idle\<rparr>\<rparr>)
                             rxIndx (b1\<lparr>dataReady := True\<rparr>))
                      else finish rxIndx (set_rxCtrlBlk st rxIndx b1))))))"

text \<open>
  \<^verbatim>\<open>iop_create\<close>: the state after \<^verbatim>\<open>calloc\<close> and the initialisation loop, with the
  transmit ring of \<^verbatim>\<open>txCreate\<close>.
\<close>

definition rxCtrlBlk_calloc :: "ltem1c_h \<Rightarrow> iopRxCtrlBlock_t" where
  "rxCtrlBlk_calloc K =
     \<lparr>process = iopProcess_void, rmtHostInData = False,
      primBuf = replicate (IOP_RXCTRLBLK_PRIMBUF_SIZE K + 1) NUL, primBufData = 0, primDataSz = 0,
      extsnBufHead = None, extsnBufTail = None, dataReady = False\<rparr>"

definition iop_create :: "ltem1c_h \<Rightarrow> iop_t" where
  "iop_create K =
     \<lparr>txBuf = \<lparr>buffer = [], maxlen = IOP_TX_BUFFER_SZ K\<rparr>,
      rxCtrlBlks = replicate (IOP_RXCTRLBLK_COUNT K) (rxCtrlBlk_calloc K),
      rxHead = 0, rxTail = 0, cmdHead = 0, cmdTail = 0,
      socketHead = (\<lambda>s. 0), socketTail = (\<lambda>s. 0),
      protoDataMode = iopProtoDataMode_idle, protoDataSocket = iopProcess_void,
      protoDataBytes = 0, protoDataRxCtrlBlk = IOP_RXCTRLBLK_VOID K,
      protoDataEOTPhrase = [], protoDataEOTSz = 0,
      urcStateMsg = replicate (IOP_URC_STATEMSG_SZ K) NUL\<rparr>"

section \<open>Predicates of the statements\<close>

text \<open>
  The receive ring is well formed when the array has \<^verbatim>\<open>IOP_RXCTRLBLK_COUNT\<close> blocks and
  the receive cursors and the command head are indices into it.
\<close>

definition rx_ring_wf :: "ltem1c_h \<Rightarrow> ltem1_t \<Rightarrow> bool" where
  "rx_ring_wf K st =
     (length (rxCtrlBlks (iop st)) = IOP_RXCTRLBLK_COUNT K \<and>
      rxHead (iop st) < IOP_RXCTRLBLK_COUNT K \<and> rxTail (iop st) < IOP_RXCTRLBLK_COUNT K \<and>
      cmdHead (iop st) < IOP_RXCTRLBLK_COUNT K)"

text \<open>The number of slots \<open>rxTail\<close> is behind \<open>rxHead\<close>, going round the ring.\<close>

definition ring_dist :: "ltem1c_h \<Rightarrow> ltem1_t \<Rightarrow> nat" where
  "ring_dist K st =
     (if rxTail (iop st) \<le> rxHead (iop st) then rxHead (iop st) - rxTail (iop st)
      else rxHead (iop st) + IOP_RXCTRLBLK_COUNT K - rxTail (iop st))"

text \<open>
  The timeout budget a call of \<^verbatim>\<open>action_getResult\<close> runs under: on the first call for
  an action (no window installed yet) the argument, or the default constant when the
  argument is 0; afterwards the budget installed then.
\<close>

definition timeout_budget :: "ltem1c_h \<Rightarrow> action_t \<Rightarrow> 16 word \<Rightarrow> 16 word" where
  "timeout_budget K a timeout =
     (if resultHead a = None then (if timeout = 0 then ACTION_DEFAULT_TIMEOUT_MILLIS K else timeout)
      else timeoutMillis a)"

text \<open>The action slot exists and is locked, or exists and is unlocked.\<close>

definition lock_held :: "ltem1_t \<Rightarrow> bool" where
  "lock_held st = (case action st of None \<Rightarrow> False | Some a \<Rightarrow> action_locked a)"

definition lock_free :: "ltem1_t \<Rightarrow> bool" where
  "lock_free st = (case action st of None \<Rightarrow> False | Some a \<Rightarrow> \<not> action_locked a)"

text \<open>
  The driver state at the poll number \<open>j\<close> of the retry loop (the first is number 0), that
  is after \<open>j\<close> waits of the call, each followed by \<^verbatim>\<open>ip_receiverDoWork\<close>.
\<close>

fun after_waits :: "env_t \<Rightarrow> nat \<Rightarrow> ltem1_t \<Rightarrow> ltem1_t" where
  "after_waits E 0 st = st"
| "after_waits E (Suc j) st = ip_receiverDoWork (timing_yield E j (after_waits E j st))"

text \<open>
  Positions in a text. \<open>occurs_at needle s p\<close>: the needle stands at offset \<open>p\<close>.
  \<open>first_from needle s L T\<close>: \<open>T\<close> is its first occurrence at or after \<open>L\<close>.
  \<open>absent_from needle s L\<close>: it occurs nowhere at or after \<open>L\<close>. \<open>last_at needle s p\<close>:
  its last occurrence is at \<open>p\<close>. \<open>nonoverlap needle s\<close>: no two occurrences overlap.
\<close>

definition occurs_at :: "string \<Rightarrow> string \<Rightarrow> nat \<Rightarrow> bool" where
  "occurs_at needle s p = (take (length needle) (drop p s) = needle)"

definition first_from :: "string \<Rightarrow> string \<Rightarrow> nat \<Rightarrow> nat \<Rightarrow> bool" where
  "first_from needle s L T =
     (L \<le> T \<and> occurs_at needle s T \<and> list_all (\<lambda>p. \<not> occurs_at needle s p) [L..<T])"

definition absent_from :: "string \<Rightarrow> string \<Rightarrow> nat \<Rightarrow> bool" where
  "absent_from needle s L = list_all (\<lambda>p. \<not> occurs_at needle s p) [L..<Suc (length s)]"

definition last_at :: "string \<Rightarrow> string \<Rightarrow> nat \<Rightarrow> bool" where
  "last_at needle s p =
     (occurs_at needle s p \<and> list_all (\<lambda>q. \<not> occurs_at needle s q) [Suc p..<Suc (length s)])"

definition nonoverlap :: "string \<Rightarrow> string \<Rightarrow> bool" where
  "nonoverlap needle s =
     list_all (\<lambda>p. list_all (\<lambda>q. \<not> (occurs_at needle s p \<and> occurs_at needle s q))
                       [Suc p..<p + length needle])
              [0..<length s]"

text \<open>
  Where the gap parser starts to look for the terminator: at the start of the text
  without a landmark, or when the landmark does not occur; else just past the last
  occurrence of the landmark. The landmark is not empty, shorter than 256 characters, and
  its occurrences in the text do not overlap.
\<close>

definition search_start :: "string \<Rightarrow> string option \<Rightarrow> nat \<Rightarrow> bool" where
  "search_start s landmark L =
     (case landmark of
        None \<Rightarrow> L = 0
      | Some lm \<Rightarrow>
          lm \<noteq> [] \<and> length lm < 256 \<and> nonoverlap lm s \<and>
          (if absent_from lm s 0 then L = 0
           else length lm \<le> L \<and> last_at lm s (L - length lm)))"

definition landmark_missing :: "string \<Rightarrow> string option \<Rightarrow> bool" where
  "landmark_missing s landmark = (case landmark of None \<Rightarrow> False | Some lm \<Rightarrow> absent_from lm s 0)"

text \<open>The terminator the gap parser looks for: the one given, else the success token.\<close>

definition terminator_sought :: "string option \<Rightarrow> string" where
  "terminator_sought terminator = (case terminator of Some t \<Rightarrow> t | None \<Rightarrow> OK_COMPLETED_STRING)"


text \<open>
  Successive passes of the interrupt handler, one per chunk the bridge delivers; a fault
  ends the run.
\<close>

fun isr_rx_passes :: "ltem1c_h \<Rightarrow> env_t \<Rightarrow> ltem1_t \<Rightarrow> char list list \<Rightarrow> abort + ltem1_t" where
  "isr_rx_passes K E st [] = Inr st"
| "isr_rx_passes K E st (chunk # chunks) =
     (case interruptCallbackISR_rx K E st chunk of
        Inl x \<Rightarrow> Inl x
      | Inr st1 \<Rightarrow> isr_rx_passes K E st1 chunks)"

definition socket_tagged :: "iopProcess \<Rightarrow> bool" where
  "socket_tagged p = (case p of iopProcess_socket s \<Rightarrow> True | _ \<Rightarrow> False)"

text \<open>
  The state the handler leaves after the first chunk of a reply to \<^verbatim>\<open>AT+QIRD\<close> that
  declares 500 bytes, more than the primary buffer takes: slot \<open>i\<close> holds the header
  \<^verbatim>\<open>+QIRD: 500\<close> at the start of its primary buffer, an extension buffer of 500 bytes is
  allocated with its cursor 500 bytes past its start, the slot is not ready, and the mode
  is awaiting 500 more bytes for slot \<open>i\<close>.
\<close>

definition ird_header_500 :: "char list" where
  "ird_header_500 = [ASCII_cCR, ASCII_cLF] @ ''+QIRD: 500'' @ [ASCII_cCR, ASCII_cLF]"

definition awaiting_ird_500 :: "ltem1c_h \<Rightarrow> ltem1_t \<Rightarrow> nat \<Rightarrow> bool" where
  "awaiting_ird_500 K st i =
     (IOP_RXCTRLBLK_PRIMBUF_IRDCAP K < 500 \<and>
      action st \<noteq> None \<and> socket_tagged (protoDataSocket (iop st)) \<and>
      protoDataMode (iop st) = iopProtoDataMode_irdBytes \<and>
      protoDataBytes (iop st) = 500 \<and>
      protoDataRxCtrlBlk (iop st) = i \<and> i < length (rxCtrlBlks (iop st)) \<and>
      take 14 (primBuf (rxCtrlBlks (iop st) ! i)) = ird_header_500 \<and>
      extsnBufHead (rxCtrlBlks (iop st) ! i) = Some 500 \<and>
      extsnBufTail (rxCtrlBlks (iop st) ! i) = Some 500 \<and>
      \<not> dataReady (rxCtrlBlks (iop st) ! i))"






section \<open>Values for the worked examples\<close>

text \<open>
  One choice of the header's constants, used where a statement is evaluated on a concrete
  input. The result codes follow the HTTP status codes, as the parsers' comment
  \<^verbatim>\<open>all CME >= 500\<close> and the name \<^verbatim>\<open>RESULT_CODE_BADREQUEST\<close> (geo.c) suggest; the bridge's
  FIFO holds 64 bytes; the MQTT end phrase is a double quote followed by CR LF.
\<close>

definition hdr_example :: ltem1c_h where
  "hdr_example =
     \<lparr>ACTION_RESULT_PENDING = 0, ACTION_RESULT_SUCCESS = 200, ACTION_RESULT_ERROR = 500,
      ACTION_RESULT_TIMEOUT = 408, ACTION_DEFAULT_TIMEOUT_MILLIS = 500,
      ACTION_INVOKE_CMDSTR_SZ = 46, IOP_RXCTRLBLK_COUNT = 4, IOP_RXCTRLBLK_VOID = 255,
      IOP_RXCTRLBLK_PRIMBUF_SIZE = 64, IOP_RXCTRLBLK_PRIMBUF_IRDCAP = 43,
      IOP_URC_STATEMSG_SZ = 20, IOP_TX_BUFFER_SZ = 1460, SC16IS741A_FIFO_BUFFER_SZ = 64,
      MQTT_URC_PREFIXSZ = 10, MQTT_SUBTOPIC_MAXSZ = 90, MQTT_MESSAGE_MAXSZ = 1548,
      ASCII_sMQTTTERM = [CHR 0x22, ASCII_cCR, ASCII_cLF]\<rparr>"

text \<open>
  Surroundings in which the clock reads 1000 ms, the bridge's transmit FIFO is empty, no
  wait changes anything, and sends are not deferred.
\<close>

definition env_example :: env_t where
  "env_example =
     \<lparr>timing_millis = 1000, SC16IS741A_TXLVL = 64, timing_yield = (\<lambda>k st. st),
      deferSend = False, beforePrimBuf = [NUL, NUL, NUL]\<rparr>"

text \<open>The driver after \<^verbatim>\<open>iop_create\<close> and \<^verbatim>\<open>action_reset\<close>, the modem ready.\<close>

definition ltem1_idle :: ltem1_t where
  "ltem1_idle =
     action_reset hdr_example
       \<lparr>action = None, iop = iop_create hdr_example, hasData = (\<lambda>s. False),
        qbgReadyState = qbg_readyState_appReady, bridgeTx = []\<rparr>"

text \<open>The same driver while the command \<^verbatim>\<open>AT\<close>, invoked at 1000 ms, is in flight.\<close>

definition ltem1_busy :: ltem1_t where
  "ltem1_busy =
     ltem1_idle\<lparr>action := map_option
                   (\<lambda>a. a\<lparr>cmdStr := store (cmdStr a) 0 (''AT'' @ [ASCII_cCR]), invokedAt := 1000\<rparr>)
                   (action ltem1_idle),
                bridgeTx := ''AT'' @ [ASCII_cCR]\<rparr>"

text \<open>
  The idle driver after the interrupt handler has opened slot 1 and released it again
  (an unsolicited status line): \<open>rxHead\<close> is one slot ahead of \<open>rxTail\<close>, and no slot is
  occupied.
\<close>

definition ltem1_urc_seen :: ltem1_t where
  "ltem1_urc_seen = ltem1_idle\<lparr>iop := (iop ltem1_idle)\<lparr>rxHead := 1\<rparr>\<rparr>"



text \<open>
  Surroundings in which the first two waits of a call change nothing and the third one
  releases the lock (the application's yield callback finishes the action in flight).
\<close>

definition env_releasing :: env_t where
  "env_releasing = env_example\<lparr>timing_yield := (\<lambda>k st. if k = 2 then action_release st else st)\<rparr>"

text \<open>Response texts of the worked examples.\<close>

definition reply_qiact :: string where
  "reply_qiact = ''+QIACT: ab'' @ OK_COMPLETED_STRING"



text \<open>
  The driver while \<^verbatim>\<open>AT+QIRD=0\<close>, sent by \<^verbatim>\<open>requestProtoData\<close> for socket 0, is in
  flight.
\<close>

definition ltem1_ird_requested :: ltem1_t where
  "ltem1_ird_requested =
     ltem1_idle\<lparr>action := map_option
                   (\<lambda>a. a\<lparr>cmdStr := store (cmdStr a) 0 (''AT+QIRD=0'' @ [ASCII_cCR]), invokedAt := 1000\<rparr>)
                   (action ltem1_idle),
                bridgeTx := ''AT+QIRD=0'' @ [ASCII_cCR],
                iop := (iop ltem1_idle)\<lparr>protoDataSocket := iopProcess_socket 0\<rparr>\<rparr>"

text \<open>The 500 bytes that follow the header, as seven chunks of 64 bytes and one of 52.\<close>

definition ird_payload_chunks :: "char list list" where
  "ird_payload_chunks = replicate 7 (replicate 64 (CHR ''x'')) @ [replicate 52 (CHR ''x'')]"

text \<open>
  A subscription message \<^verbatim>\<open>+QMTRECV: 0,0,"t","ab"\<close>: its first 23 bytes, which stop
  inside the payload, and the whole of it, which ends in the end phrase.
\<close>

definition mqtt_partial :: "char list" where
  "mqtt_partial =
     [ASCII_cCR, ASCII_cLF] @ ''+QMTRECV: 0,0,'' @ [CHR 0x22] @ ''t'' @ [CHR 0x22] @ '','' @ [CHR 0x22] @ ''ab''"

definition mqtt_complete :: "char list" where
  "mqtt_complete = mqtt_partial @ [CHR 0x22, ASCII_cCR, ASCII_cLF]"

section \<open>Auxiliary facts\<close>

lemma cstr_Nil [simp]: "cstr [] = []"
  by (simp add: cstr_def)

lemma cstr_Cons: "cstr (c # cs) = (if c = NUL then [] else c # cstr cs)"
  by (simp add: cstr_def)

lemma cstr_replicate_NUL [simp]: "0 < n \<Longrightarrow> cstr (replicate n NUL @ xs) = []"
  by (cases n) (simp_all add: cstr_def)

lemma cstr_replicate_NUL' [simp]: "cstr (replicate n NUL) = []"
  by (cases n) (simp_all add: cstr_def)

lemma cstr_NUL_free: "NUL \<notin> set (cstr xs)"
  by (auto simp: cstr_def dest: set_takeWhileD)

lemma cstr_append_NUL: "NUL \<notin> set xs \<Longrightarrow> cstr (xs @ NUL # ys) = xs"
  by (induction xs) (auto simp: cstr_def)

lemma cstr_idem [simp]: "cstr (cstr xs) = cstr xs"
  by (simp add: cstr_def)

lemma cstr_length_le: "length (cstr xs) \<le> length xs"
  by (simp add: cstr_def length_takeWhile_le)

lemma strncpy_bytes_short:
  assumes "length (cstr src) < n"
  shows "strncpy_bytes src n = cstr src @ replicate (n - length (cstr src)) NUL"
  using assms by (simp add: strncpy_bytes_def)

lemma strcat_after_strncpy:
  assumes "length (cstr cmd) + length s + 1 \<le> n"
  shows "strcat_bytes (strncpy_bytes cmd n) s =
           Inr (cstr cmd @ s @ NUL # replicate (n - (length (cstr cmd) + length s + 1)) NUL)"
proof -
  let ?k = "n - length (cstr cmd)"
  have sb: "strncpy_bytes cmd n = cstr cmd @ replicate ?k NUL"
    using assms by (simp add: strncpy_bytes_short)
  have k: "?k = Suc (length s + (n - (length (cstr cmd) + length s + 1)))"
    using assms by simp
  have c: "cstr (cstr cmd @ replicate ?k NUL) = cstr cmd"
    by (subst k) (simp add: cstr_append_NUL cstr_NUL_free)
  have "NUL \<in> set (cstr cmd @ replicate ?k NUL)"
    using assms by simp
  moreover have "length (cstr (cstr cmd @ replicate ?k NUL)) + length s + 1 \<le> length (cstr cmd @ replicate ?k NUL)"
    using assms by (simp add: c)
  moreover have "store (cstr cmd @ replicate ?k NUL) (length (cstr cmd)) (s @ [NUL])
        = cstr cmd @ s @ NUL # replicate (n - (length (cstr cmd) + length s + 1)) NUL"
    using assms by (simp add: store_def)
  ultimately show ?thesis
    by (simp add: strcat_bytes_def sb c)
qed

lemma txPut_room:
  "length (buffer c) + length ds \<le> maxlen c \<Longrightarrow> txPut c ds = (length ds, c\<lparr>buffer := buffer c @ ds\<rparr>)"
  by (induction ds arbitrary: c) (simp_all add: cbuf_push_def)

lemma txTake_eq: "txTake c n = (take n (buffer c), c\<lparr>buffer := drop n (buffer c)\<rparr>)"
proof (induction n arbitrary: c)
  case 0
  then show ?case by simp
next
  case (Suc n)
  then show ?case by (cases "buffer c") (simp_all add: cbuf_pop_def)
qed


lemma action_txSendChunk [simp]: "action (txSendChunk K E st) = action st"
  by (simp add: txSendChunk_def Let_def split: prod.splits)

lemma stream_txSendChunk [simp]:
  "bridgeTx (txSendChunk K E st) @ buffer (txBuf (iop (txSendChunk K E st))) = bridgeTx st @ buffer (txBuf (iop st))"
  by (simp add: txSendChunk_def Let_def txTake_eq)

lemma iop_txSend_room:
  assumes "length (buffer (txBuf (iop st))) + n \<le> maxlen (txBuf (iop st))" and "length d = n"
  shows "\<exists>st'. iop_txSend K E st d n df = Inr st' \<and> action st' = action st \<and>
           bridgeTx st' @ buffer (txBuf (iop st')) = bridgeTx st @ buffer (txBuf (iop st)) @ d"
  using assms by (simp add: iop_txSend_def txPut_room Let_def)

lemma action_iop_txSend: "iop_txSend K E st d n df = Inr st' \<Longrightarrow> action st' = action st"
  by (auto simp: iop_txSend_def Let_def split: prod.splits if_splits)

lemma tryActionLock_unlocked:
  "action st = Some a \<Longrightarrow> \<not> action_locked a \<Longrightarrow>
     tryActionLock E st retry = Inr (True, st\<lparr>action := Some (a\<lparr>cmdStr := (cmdStr a)[0 := CHR ''*'']\<rparr>)\<rparr>)"
  by (simp add: tryActionLock_def tryActionLock_take_def)

lemma action_reset_frame [simp]:
  "iop (action_reset K st) = iop st" "bridgeTx (action_reset K st) = bridgeTx st"
  "hasData (action_reset K st) = hasData st" "qbgReadyState (action_reset K st) = qbgReadyState st"
  by (simp_all add: action_reset_def)

lemma invoke_unlocked:
  assumes a: "action st = Some a" and free: "\<not> action_locked a"
    and fits: "length (cstr cmd) + 2 \<le> ACTION_INVOKE_CMDSTR_SZ K"
    and small: "ACTION_INVOKE_CMDSTR_SZ K \<le> 65536"
    and room: "length (buffer (txBuf (iop st))) + length (cstr cmd) + 1 \<le> maxlen (txBuf (iop st))"
  shows "\<exists>st'. action_tryInvoke K E st cmd retry = Inr (True, st') \<and>
           (\<exists>a'. action st' = Some a' \<and> cstr (cmdStr a') = cstr cmd @ ASCII_sCR \<and>
                 invokedAt a' = timing_millis E \<and> resultHead a' = None) \<and>
           bridgeTx st' @ buffer (txBuf (iop st')) = bridgeTx st @ buffer (txBuf (iop st)) @ cstr cmd @ ASCII_sCR"
proof -
  define arr where
    "arr = cstr cmd @ ASCII_sCR @ NUL # replicate (ACTION_INVOKE_CMDSTR_SZ K - (length (cstr cmd) + length ASCII_sCR + 1)) NUL"
  have cat: "strcat_bytes (strncpy_bytes cmd (ACTION_INVOKE_CMDSTR_SZ K)) ASCII_sCR = Inr arr"
    unfolding arr_def using fits by (intro strcat_after_strncpy) (simp add: ASCII_sCR_def)
  have "NUL \<notin> set ASCII_sCR"
    by (simp add: ASCII_sCR_def ASCII_cCR_def NUL_def)
  then have "NUL \<notin> set (cstr cmd @ ASCII_sCR)"
    using cstr_NUL_free [of cmd] by simp
  then have carr: "cstr arr = cstr cmd @ ASCII_sCR"
    unfolding arr_def using cstr_append_NUL [of "cstr cmd @ ASCII_sCR"] by simp
  have len: "length (cstr cmd @ ASCII_sCR) mod 65536 = length (cstr cmd @ ASCII_sCR)"
    using fits small by (simp add: ASCII_sCR_def)
  define st1 where "st1 = st\<lparr>action := Some (a\<lparr>cmdStr := (cmdStr a)[0 := CHR ''*'']\<rparr>)\<rparr>"
  obtain a2 where a2: "action (action_reset K st1) = Some a2" and rh: "resultHead a2 = None"
    by (simp add: action_reset_def)
  define st3 where "st3 = (action_reset K st1)\<lparr>action := Some (a2\<lparr>cmdStr := arr, invokedAt := timing_millis E\<rparr>)\<rparr>"
  have iop3: "iop st3 = iop st" and br3: "bridgeTx st3 = bridgeTx st"
    and act3: "action st3 = Some (a2\<lparr>cmdStr := arr, invokedAt := timing_millis E\<rparr>)"
    by (simp_all add: st3_def st1_def)
  have "length (buffer (txBuf (iop st3))) + length (cstr cmd @ ASCII_sCR) \<le> maxlen (txBuf (iop st3))"
    using room by (simp add: iop3 ASCII_sCR_def)
  from iop_txSend_room [OF this refl, of K E "deferSend E"]
  obtain st' where tx: "iop_txSend K E st3 (cstr cmd @ ASCII_sCR) (length (cstr cmd @ ASCII_sCR)) (deferSend E) = Inr st'"
    and act: "action st' = action st3"
    and str: "bridgeTx st' @ buffer (txBuf (iop st')) = bridgeTx st3 @ buffer (txBuf (iop st3)) @ cstr cmd @ ASCII_sCR"
    by blast
  have lock: "tryActionLock E st retry = Inr (True, st1)"
    unfolding st1_def by (rule tryActionLock_unlocked [OF a free])
  have "action_tryInvoke K E st cmd retry = Inr (True, st')"
    unfolding action_tryInvoke_def lock
    using tx [unfolded st3_def] len by (simp add: a2 cat carr Let_def)
  moreover have "\<exists>a'. action st' = Some a' \<and> cstr (cmdStr a') = cstr cmd @ ASCII_sCR \<and>
                 invokedAt a' = timing_millis E \<and> resultHead a' = None"
    using act rh by (simp add: act3 carr)
  moreover have "bridgeTx st' @ buffer (txBuf (iop st')) = bridgeTx st @ buffer (txBuf (iop st)) @ cstr cmd @ ASCII_sCR"
    using str by (simp only: iop3 br3)
  ultimately show ?thesis by blast
qed

lemma strcat_bytes_locked:
  assumes "strcat_bytes arr s = Inr arr'" and "s \<noteq> []" and "hd s \<noteq> NUL"
  shows "arr' \<noteq> [] \<and> hd arr' \<noteq> NUL"
proof (cases "cstr arr")
  case Nil
  with assms show ?thesis
    by (cases s) (auto simp: strcat_bytes_def store_def split: if_splits)
next
  case (Cons c cs)
  then obtain rest where arr: "arr = c # rest" and c: "c \<noteq> NUL"
    by (cases arr) (auto simp: cstr_def split: if_splits)
  with assms Cons show ?thesis
    by (auto simp: strcat_bytes_def store_def split: if_splits)
qed

lemma idle_action: "\<exists>a. action ltem1_idle = Some a \<and> \<not> action_locked a"
  by (simp add: ltem1_idle_def action_reset_def action_calloc_def action_locked_def hdr_example_def)

lemma busy_action: "\<exists>a. action ltem1_busy = Some a \<and> action_locked a"
  by (simp add: ltem1_busy_def ltem1_idle_def action_reset_def action_calloc_def action_locked_def
      hdr_example_def store_def NUL_def)

lemma recvDoWork_latch_form:
  "recvDoWork_latch s = s\<lparr>hasData := hasData (recvDoWork_latch s)\<rparr>"
  "hasData s x \<Longrightarrow> hasData (recvDoWork_latch s) x"
  by (auto simp: recvDoWork_latch_def Let_def split: iopProcess.splits)

lemma recvDoWork_latch_iop [simp]: "iop (recvDoWork_latch s) = iop s"
  by (auto simp: recvDoWork_latch_def Let_def split: iopProcess.splits)

lemma recvDoWork_loop_done:
  "rxTail (iop st) = rxHead (iop st) \<Longrightarrow> recvDoWork_loop K st = Some (Inr st)"
  by (subst recvDoWork_loop.simps) simp

lemma recvDoWork_loop_returns:
  assumes "length (rxCtrlBlks (iop st)) = IOP_RXCTRLBLK_COUNT K"
    and "rxHead (iop st) < IOP_RXCTRLBLK_COUNT K" and "rxTail (iop st) < IOP_RXCTRLBLK_COUNT K"
  shows "\<exists>h. recvDoWork_loop K st = Some (Inr (st\<lparr>iop := (iop st)\<lparr>rxTail := rxHead (iop st)\<rparr>, hasData := h\<rparr>))
             \<and> (\<forall>s. hasData st s \<longrightarrow> h s)"
  using assms
proof (induction "ring_dist K st" arbitrary: st rule: less_induct)
  case less
  show ?case
  proof (cases "rxTail (iop st) = rxHead (iop st)")
    case True
    have "st\<lparr>iop := (iop st)\<lparr>rxTail := rxHead (iop st)\<rparr>, hasData := hasData st\<rparr> = st"
      using True [symmetric] by simp
    with recvDoWork_loop_done [OF True, of K] show ?thesis
      by (intro exI [of _ "hasData st"]) simp
  next
    case False
    let ?t = "IOP_RXCTRLBLK_ADVINDEX K (rxTail (iop st))"
    let ?s2 = "recvDoWork_latch (st\<lparr>iop := (iop st)\<lparr>rxTail := ?t\<rparr>\<rparr>)"
    have t: "?t < IOP_RXCTRLBLK_COUNT K"
      using less.prems by (simp add: IOP_RXCTRLBLK_ADVINDEX_def)
    have d: "ring_dist K ?s2 < ring_dist K st"
      using less.prems False by (auto simp: ring_dist_def IOP_RXCTRLBLK_ADVINDEX_def)
    have unf: "recvDoWork_loop K st = recvDoWork_loop K ?s2"
      using False t less.prems by (subst recvDoWork_loop.simps) (simp add: Let_def)
    from less.hyps [OF d] less.prems t
    obtain h where h: "recvDoWork_loop K ?s2 = Some (Inr (?s2\<lparr>iop := (iop ?s2)\<lparr>rxTail := rxHead (iop ?s2)\<rparr>, hasData := h\<rparr>))"
      and mono: "\<forall>s. hasData ?s2 s \<longrightarrow> h s"
      by auto
    have "?s2\<lparr>iop := (iop ?s2)\<lparr>rxTail := rxHead (iop ?s2)\<rparr>, hasData := h\<rparr>
            = st\<lparr>iop := (iop st)\<lparr>rxTail := rxHead (iop st)\<rparr>, hasData := h\<rparr>"
      by (subst recvDoWork_latch_form(1)) simp
    moreover have "\<forall>s. hasData st s \<longrightarrow> h s"
      using mono recvDoWork_latch_form(2) [of "st\<lparr>iop := (iop st)\<lparr>rxTail := ?t\<rparr>\<rparr>"] by simp
    ultimately show ?thesis
      using unf h by auto
  qed
qed

lemma rxGetCmdQueued_unoccupied:
  assumes wf: "rx_ring_wf K st"
    and empty: "\<not> IOP_RXCTRLBLK_ISOCCUPIED st (cmdHead (iop st))"
  shows "\<exists>st'. iop_rxGetCmdQueued K st mem off recvBufSz = Inr (iopXfrResult_incomplete, st', mem) \<and>
           st' = st\<lparr>iop := (iop st)\<lparr>rxTail := rxHead (iop st)\<rparr>, hasData := hasData st'\<rparr> \<and>
           (\<forall>s. hasData st s \<longrightarrow> hasData st' s) \<and>
           (rxTail (iop st) = rxHead (iop st) \<longrightarrow> st' = st)"
proof -
  from wf recvDoWork_loop_returns [of st K]
  obtain h where h: "recvDoWork_loop K st = Some (Inr (st\<lparr>iop := (iop st)\<lparr>rxTail := rxHead (iop st)\<rparr>, hasData := h\<rparr>))"
    and mono: "\<forall>s. hasData st s \<longrightarrow> h s"
    by (auto simp: rx_ring_wf_def)
  let ?st' = "st\<lparr>iop := (iop st)\<lparr>rxTail := rxHead (iop st)\<rparr>, hasData := h\<rparr>"
  have "iop_rxGetCmdQueued K st mem off recvBufSz = Inr (iopXfrResult_incomplete, ?st', mem)"
    using wf empty by (simp add: iop_rxGetCmdQueued_def iop_recvDoWork_def h rx_ring_wf_def IOP_RXCTRLBLK_ISOCCUPIED_def)
  moreover have "rxTail (iop st) = rxHead (iop st) \<longrightarrow> ?st' = st"
  proof
    assume e: "rxTail (iop st) = rxHead (iop st)"
    from recvDoWork_loop_done [OF e, of K] h have "st = ?st'" by simp
    then show "?st' = st" by simp
  qed
  ultimately show ?thesis
    using mono by (intro exI [of _ ?st']) simp
qed

lemma getResult_gather_action:
  assumes a0: "action st = Some a0"
    and g: "getResult_gather K st response responseSz timeout parser = Inr (parserResult, st1)"
  shows "\<exists>a1. action st1 = Some a1 \<and> timeoutMillis a1 = timeout_budget K a0 timeout \<and>
               invokedAt a1 = invokedAt a0 \<and> cmdStr a1 = cmdStr a0"
  using g unfolding getResult_gather_def timeout_budget_def Let_def a0 option.case
  by (auto split: option.splits sum.splits prod.splits if_splits)

lemma action_release_unlocks:
  "action st = Some a \<Longrightarrow> \<exists>a'. action (action_release st) = Some a' \<and> \<not> action_locked a'"
  by (cases "cmdStr a") (simp_all add: action_release_def action_locked_def)

lemma getResult_below_success:
  assumes a0: "action st = Some a0"
    and g: "getResult_gather K st response responseSz timeout parser = Inr (parserResult, st1)"
    and np: "parserResult < ACTION_RESULT_SUCCESS K"
  shows "action_getResult K E st response responseSz timeout parser autoClose =
           (if timing_millis E - invokedAt a0 \<le> ucast (timeout_budget K a0 timeout)
            then Inr (ACTION_RESULT_PENDING K, st1)
            else Inr (ACTION_RESULT_TIMEOUT K, action_release st1)) \<and>
         (\<exists>a1. action st1 = Some a1 \<and> timeoutMillis a1 = timeout_budget K a0 timeout \<and>
               invokedAt a1 = invokedAt a0) \<and>
         (\<exists>a'. action (action_release st1) = Some a' \<and> \<not> action_locked a')"
proof -
  from getResult_gather_action [OF a0 g]
  obtain a1 where a1: "action st1 = Some a1" "timeoutMillis a1 = timeout_budget K a0 timeout"
      "invokedAt a1 = invokedAt a0"
    by blast
  have "action_getResult K E st response responseSz timeout parser autoClose =
           (if timing_millis E - invokedAt a0 \<le> ucast (timeout_budget K a0 timeout)
            then Inr (ACTION_RESULT_PENDING K, st1)
            else Inr (ACTION_RESULT_TIMEOUT K, action_release st1))"
    using np by (auto simp: action_getResult_def g a1 not_le)
  with a1 action_release_unlocks [OF a1(1)] show ?thesis by blast
qed

lemma rx_ring_wf_action [simp]: "rx_ring_wf K (st\<lparr>action := x\<rparr>) = rx_ring_wf K st"
  by (simp add: rx_ring_wf_def)

lemma ISOCCUPIED_action [simp]:
  "IOP_RXCTRLBLK_ISOCCUPIED (st\<lparr>action := x\<rparr>) i = IOP_RXCTRLBLK_ISOCCUPIED st i"
  by (simp add: IOP_RXCTRLBLK_ISOCCUPIED_def)

lemma getResult_gather_nothing_queued:
  assumes a0: "action st = Some a0" and first: "resultHead a0 = None"
    and wf: "rx_ring_wf K st" and empty: "\<not> IOP_RXCTRLBLK_ISOCCUPIED st (cmdHead (iop st))"
  shows "\<exists>st1. getResult_gather K st response responseSz timeout parser = Inr (ACTION_RESULT_PENDING K, st1)"
proof -
  define a1 where "a1 = a0\<lparr>resultHead := Some response, resultTail := Some 0, resultSz := responseSz,
                         timeoutMillis := (if timeout = 0 then ACTION_DEFAULT_TIMEOUT_MILLIS K else timeout),
                         cmdCompleteParser_func :=
                           Some (case parser of None \<Rightarrow> action_okResultParser K | Some f \<Rightarrow> f)\<rparr>"
  have h: "resultHead a1 = Some response" "resultTail a1 = Some 0"
    by (simp_all add: a1_def)
  from rxGetCmdQueued_unoccupied [of K "st\<lparr>action := Some a1\<rparr>" response 0 "resultSz a1"] wf empty
  obtain st' where "iop_rxGetCmdQueued K (st\<lparr>action := Some a1\<rparr>) response 0 (resultSz a1)
                      = Inr (iopXfrResult_incomplete, st', response)"
    by auto
  then show ?thesis
    unfolding getResult_gather_def a0 option.case Let_def
    by (simp add: first a1_def [symmetric] h)
qed

lemma word8_succ_ne_20:
  assumes "unat (c::8 word) < 19"
  shows "c + 1 \<noteq> 20 \<and> unat (c + 1) = Suc (unat c)"
proof -
  have u: "unat (c + 1) = Suc (unat c)"
    using assms by (simp add: unat_word_ariths)
  have "c + 1 \<noteq> 20"
  proof
    assume "c + 1 = 20"
    then have "unat (c + 1) = unat (20 :: 8 word)" by simp
    with u assms show False by simp
  qed
  with u show ?thesis by simp
qed

lemma word8_unat_19: "unat (c::8 word) = 19 \<Longrightarrow> c + 1 = 20"
proof -
  assume "unat c = 19"
  then have "unat c = unat (19 :: 8 word)" by simp
  then have "c = 19" by (simp only: word_unat_eq_iff)
  then show ?thesis by simp
qed

lemma word8_of_nat_lt_20: "k < 20 \<Longrightarrow> unat (of_nat k :: 8 word) = k"
  by (simp add: unat_of_nat)

lemma retry_loop_step:
  assumes "lock_held (after_waits E k st)" and "k < 19"
  shows "tryActionLock_retry E (of_nat k) (after_waits E k st)
           = tryActionLock_retry E (of_nat (Suc k)) (after_waits E (Suc k) st)"
proof -
  from assms(2) have u: "unat (of_nat k :: 8 word) = k"
    by (simp add: word8_of_nat_lt_20)
  with assms(2) word8_succ_ne_20 [of "of_nat k"] have c: "(of_nat k :: 8 word) + 1 \<noteq> 20"
    by simp
  have s: "(of_nat (Suc k) :: 8 word) = of_nat k + 1"
    by simp
  from assms(1) c show ?thesis
    by (subst tryActionLock_retry.simps)
       (auto simp: lock_held_def ACTIONS_RETRY_MAX_def u s ac_simps split: option.splits)
qed

lemma retry_loop_advance:
  assumes "\<forall>i<j. lock_held (after_waits E i st)" and "j < 20"
  shows "tryActionLock_retry E 0 st = tryActionLock_retry E (of_nat j) (after_waits E j st)"
  using assms
proof (induction j)
  case 0
  show ?case by simp
next
  case (Suc j)
  then have "tryActionLock_retry E 0 st = tryActionLock_retry E (of_nat j) (after_waits E j st)"
    by simp
  also from Suc.prems have "\<dots> = tryActionLock_retry E (of_nat (Suc j)) (after_waits E (Suc j) st)"
    by (intro retry_loop_step) simp_all
  finally show ?case .
qed

lemma tryActionLock_first_poll:
  "lock_held st \<Longrightarrow> tryActionLock E st True =
     (case tryActionLock_retry E 0 st of
        Inl x \<Rightarrow> Inl x
      | Inr (got, st') \<Rightarrow> if got then tryActionLock_take st' else Inr (False, st'))"
  by (auto simp: tryActionLock_def lock_held_def split: option.splits)

lemma tryActionLock_retry_clears:
  assumes "\<forall>i<j. lock_held (after_waits E i st)" and "lock_free (after_waits E j st)"
    and "j < 20"
  shows "tryActionLock E st True = tryActionLock E (after_waits E j st) False"
proof (cases j)
  case 0
  with assms(2) show ?thesis
    by (auto simp: tryActionLock_def lock_free_def split: option.splits)
next
  case (Suc k)
  with assms(1) have "lock_held (after_waits E 0 st)" by blast
  then have held: "lock_held st" by simp
  from assms(2) have "tryActionLock_retry E (of_nat j) (after_waits E j st) = Inr (True, after_waits E j st)"
    by (subst tryActionLock_retry.simps) (auto simp: lock_free_def split: option.splits)
  with retry_loop_advance [OF assms(1,3)]
  have "tryActionLock_retry E 0 st = Inr (True, after_waits E j st)" by simp
  then have "tryActionLock E st True = tryActionLock_take (after_waits E j st)"
    by (simp add: tryActionLock_first_poll [OF held])
  moreover from assms(2)
  have "tryActionLock E (after_waits E j st) False = tryActionLock_take (after_waits E j st)"
    by (auto simp: tryActionLock_def lock_free_def split: option.splits)
  ultimately show ?thesis by simp
qed

lemma tryActionLock_retry_exhausts:
  assumes "\<forall>i\<le>19. lock_held (after_waits E i st)"
  shows "tryActionLock E st True = Inr (False, after_waits E 19 st)"
proof -
  from assms have "lock_held (after_waits E 0 st)" by blast
  then have held: "lock_held st" by simp
  from assms have last: "lock_held (after_waits E 19 st)" by blast
  have "(of_nat 19 :: 8 word) + 1 = 20" by simp
  with last have "tryActionLock_retry E (of_nat 19) (after_waits E 19 st) = Inr (False, after_waits E 19 st)"
    by (subst tryActionLock_retry.simps) (auto simp: lock_held_def ACTIONS_RETRY_MAX_def split: option.splits)
  moreover from assms have "\<forall>i<19. lock_held (after_waits E i st)" by simp
  from retry_loop_advance [OF this]
  have "tryActionLock_retry E 0 st = tryActionLock_retry E (of_nat 19) (after_waits E 19 st)" by simp
  ultimately show ?thesis
    by (simp add: tryActionLock_first_poll [OF held])
qed

lemma tryActionLock_retry_null:
  assumes "\<forall>i<j. lock_held (after_waits E i st)" and "action (after_waits E j st) = None"
    and "j < 20"
  shows "tryActionLock E st True = Inl NullDeref"
proof (cases j)
  case 0
  with assms(2) show ?thesis
    by (simp add: tryActionLock_def)
next
  case (Suc k)
  with assms(1) have "lock_held (after_waits E 0 st)" by blast
  then have held: "lock_held st" by simp
  from assms(2) have "tryActionLock_retry E (of_nat j) (after_waits E j st) = Inl NullDeref"
    by (subst tryActionLock_retry.simps) simp
  with retry_loop_advance [OF assms(1,3)]
  have "tryActionLock_retry E 0 st = Inl NullDeref" by simp
  then show ?thesis
    by (simp add: tryActionLock_first_poll [OF held])
qed

lemma after_waits_unchanged: "after_waits env_example n s = s"
  by (induction n) (simp_all add: env_example_def ip_receiverDoWork_def)

lemma after_waits_releasing:
  "after_waits env_releasing 0 s = s"
  "after_waits env_releasing (Suc 0) s = s"
  "after_waits env_releasing (Suc (Suc 0)) s = s"
  "after_waits env_releasing (Suc (Suc (Suc 0))) s = action_release s"
  by (simp_all add: env_releasing_def ip_receiverDoWork_def numeral_2_eq_2)



lemma urc_seen_wf: "rx_ring_wf hdr_example ltem1_urc_seen"
  by (simp add: rx_ring_wf_def ltem1_urc_seen_def ltem1_idle_def iop_create_def hdr_example_def)

lemma urc_seen_unoccupied: "\<not> IOP_RXCTRLBLK_ISOCCUPIED ltem1_urc_seen (cmdHead (iop ltem1_urc_seen))"
  by (simp add: IOP_RXCTRLBLK_ISOCCUPIED_def ltem1_urc_seen_def ltem1_idle_def iop_create_def hdr_example_def rxCtrlBlk_calloc_def)

lemma urc_seen_cursors: "rxTail (iop ltem1_urc_seen) = 0" "rxHead (iop ltem1_urc_seen) = 1"
  by (simp_all add: ltem1_urc_seen_def ltem1_idle_def iop_create_def)

lemma busy_wf: "rx_ring_wf hdr_example ltem1_busy"
  by (simp add: rx_ring_wf_def ltem1_busy_def ltem1_idle_def iop_create_def hdr_example_def)

lemma busy_unoccupied: "\<not> IOP_RXCTRLBLK_ISOCCUPIED ltem1_busy (cmdHead (iop ltem1_busy))"
  by (simp add: IOP_RXCTRLBLK_ISOCCUPIED_def ltem1_busy_def ltem1_idle_def iop_create_def hdr_example_def rxCtrlBlk_calloc_def)

lemma busy_action_fields:
  "\<exists>a. action ltem1_busy = Some a \<and> action_locked a \<and> invokedAt a = 1000 \<and> resultHead a = None"
  by (simp add: ltem1_busy_def ltem1_idle_def action_reset_def action_calloc_def action_locked_def
      hdr_example_def store_def NUL_def)

lemma occurs_at_Cons_Suc [simp]: "occurs_at n (c # cs) (Suc p) = occurs_at n cs p"
  by (simp add: occurs_at_def)

lemma occurs_at_bound: "occurs_at n s p \<Longrightarrow> n \<noteq> [] \<Longrightarrow> p + length n \<le> length s"
proof -
  assume o: "occurs_at n s p" and n: "n \<noteq> []"
  have "length (take (length n) (drop p s)) \<le> length s - p"
    by simp
  with o have a: "length n \<le> length s - p"
    by (simp only: occurs_at_def)
  from n have "0 < length n" by simp
  with a show ?thesis by linarith
qed

lemma occurs_at_drop: "occurs_at n (drop L s) k = occurs_at n s (L + k)"
  by (simp add: occurs_at_def add.commute)

lemma strstr_Some_iff:
  "strstr s n = Some k \<longleftrightarrow> k \<le> length s \<and> occurs_at n s k \<and> (\<forall>p<k. \<not> occurs_at n s p)"
proof (induction s arbitrary: k)
  case Nil
  then show ?case by (auto simp: occurs_at_def)
next
  case (Cons c cs)
  show ?case
  proof (cases "take (length n) (c # cs) = n")
    case True
    then have "occurs_at n (c # cs) 0" by (simp add: occurs_at_def)
    with True show ?thesis by (cases k) auto
  next
    case False
    then have no: "\<not> occurs_at n (c # cs) 0" by (simp add: occurs_at_def)
    show ?thesis
    proof (cases k)
      case 0
      with False no show ?thesis by auto
    next
      case (Suc k')
      have "(\<forall>p<Suc k'. \<not> occurs_at n (c # cs) p) \<longleftrightarrow> (\<forall>p<k'. \<not> occurs_at n cs p)"
        using no by (auto simp: less_Suc_eq_0_disj)
      with False Suc Cons.IH [of k'] show ?thesis by auto
    qed
  qed
qed

lemma strstr_None_iff: "strstr s n = None \<longleftrightarrow> (\<forall>p\<le>length s. \<not> occurs_at n s p)"
proof (induction s)
  case Nil
  then show ?case by (auto simp: occurs_at_def)
next
  case (Cons c cs)
  have "(\<forall>p\<le>length (c # cs). \<not> occurs_at n (c # cs) p)
          \<longleftrightarrow> \<not> occurs_at n (c # cs) 0 \<and> (\<forall>p\<le>length cs. \<not> occurs_at n cs p)"
  proof (intro iffI conjI allI impI)
    fix p assume h: "\<forall>p\<le>length (c # cs). \<not> occurs_at n (c # cs) p" and "p \<le> length cs"
    then have "Suc p \<le> length (c # cs)" by simp
    with h have "\<not> occurs_at n (c # cs) (Suc p)" by blast
    then show "\<not> occurs_at n cs p" by simp
  next
    assume "\<forall>p\<le>length (c # cs). \<not> occurs_at n (c # cs) p"
    then show "\<not> occurs_at n (c # cs) 0" by blast
  next
    fix p assume h: "\<not> occurs_at n (c # cs) 0 \<and> (\<forall>p\<le>length cs. \<not> occurs_at n cs p)"
      and p: "p \<le> length (c # cs)"
    show "\<not> occurs_at n (c # cs) p"
    proof (cases p)
      case 0
      with h show ?thesis by simp
    next
      case (Suc q)
      with p h show ?thesis by simp
    qed
  qed
  with Cons show ?case by (auto simp: occurs_at_def)
qed

lemma strstr_at_Some_iff:
  assumes "L \<le> length s"
  shows "strstr_at s L n = Some T \<longleftrightarrow> T \<le> length s \<and> first_from n s L T"
proof
  assume "strstr_at s L n = Some T"
  then obtain k where k: "strstr (drop L s) n = Some k" and T: "T = L + k"
    by (auto simp: strstr_at_def)
  from k have "k \<le> length s - L" "occurs_at n s (L + k)" "\<forall>p<k. \<not> occurs_at n s (L + p)"
    by (simp_all add: strstr_Some_iff occurs_at_drop)
  moreover have "\<forall>p. L \<le> p \<and> p < L + k \<longrightarrow> \<not> occurs_at n s p"
  proof (intro allI impI)
    fix p assume "L \<le> p \<and> p < L + k"
    then have "p - L < k" "p = L + (p - L)" by auto
    with \<open>\<forall>p<k. \<not> occurs_at n s (L + p)\<close> show "\<not> occurs_at n s p" by metis
  qed
  ultimately show "T \<le> length s \<and> first_from n s L T"
    using assms T by (auto simp: first_from_def list_all_iff)
next
  assume a: "T \<le> length s \<and> first_from n s L T"
  then have "strstr (drop L s) n = Some (T - L)"
    using assms by (auto simp: strstr_Some_iff occurs_at_drop first_from_def list_all_iff)
  with a show "strstr_at s L n = Some T"
    by (simp add: strstr_at_def first_from_def)
qed

lemma strstr_at_None_iff:
  assumes "L \<le> length s"
  shows "strstr_at s L n = None \<longleftrightarrow> absent_from n s L"
proof -
  have "(\<forall>p\<le>length s - L. \<not> occurs_at n s (L + p)) \<longleftrightarrow> (\<forall>p. L \<le> p \<and> p \<le> length s \<longrightarrow> \<not> occurs_at n s p)"
  proof (intro iffI allI impI)
    fix p assume h: "\<forall>p\<le>length s - L. \<not> occurs_at n s (L + p)" and p: "L \<le> p \<and> p \<le> length s"
    then have "p - L \<le> length s - L" "p = L + (p - L)" by auto
    with h show "\<not> occurs_at n s p" by metis
  next
    fix p assume h: "\<forall>p. L \<le> p \<and> p \<le> length s \<longrightarrow> \<not> occurs_at n s p" and "p \<le> length s - L"
    with assms have "L \<le> L + p \<and> L + p \<le> length s" by simp
    with h show "\<not> occurs_at n s (L + p)" by blast
  qed
  then show ?thesis
    by (auto simp: strstr_at_def strstr_None_iff occurs_at_drop absent_from_def list_all_iff)
qed

lemma first_from_le_length:
  assumes "first_from n s L T" and "L \<le> length s"
  shows "T \<le> length s"
proof (cases "n = []")
  case True
  then have "occurs_at n s L" by (simp add: occurs_at_def)
  with assms(1) have "T = L"
    by (auto simp: first_from_def list_all_iff)
  with assms(2) show ?thesis by simp
next
  case False
  with assms(1) occurs_at_bound [of n s T] show ?thesis
    by (simp add: first_from_def)
qed

lemma strstr_at_first: "first_from n s L T \<Longrightarrow> L \<le> length s \<Longrightarrow> strstr_at s L n = Some T"
  using first_from_le_length strstr_at_Some_iff by blast

lemma strstr_at_absent: "absent_from n s L \<Longrightarrow> L \<le> length s \<Longrightarrow> strstr_at s L n = None"
  using strstr_at_None_iff by blast

lemma strstr_at_0 [simp]: "strstr_at s 0 n = strstr s n"
  by (simp add: strstr_at_def option.map_ident)

lemma nonoverlapD:
  assumes "nonoverlap n s" and "occurs_at n s p" and "occurs_at n s q" and "p < q" and "n \<noteq> []"
  shows "p + length n \<le> q"
proof (rule ccontr)
  assume "\<not> p + length n \<le> q"
  with \<open>p < q\<close> have q: "q \<in> set [Suc p..<p + length n]"
    unfolding set_upt atLeastLessThan_iff by linarith
  from assms(5) have "0 < length n" by simp
  with occurs_at_bound [OF assms(2,5)] have "p \<in> set [0..<length s]"
    unfolding set_upt atLeastLessThan_iff by linarith
  with assms(1) q have "\<not> (occurs_at n s p \<and> occurs_at n s q)"
    unfolding nonoverlap_def list_all_iff by blast
  with assms(2,3) show False by simp
qed

lemma last_atD:
  assumes "last_at n s p" and "p < q" and "n \<noteq> []"
  shows "\<not> occurs_at n s q"
proof
  assume o: "occurs_at n s q"
  from occurs_at_bound [OF o assms(3)] have "q \<le> length s" by simp
  with assms(2) have "q \<in> set [Suc p..<Suc (length s)]"
    unfolding set_upt atLeastLessThan_iff by linarith
  with assms(1) o show False
    unfolding last_at_def list_all_iff by blast
qed

lemma scan_reaches_last:
  assumes n: "n \<noteq> []" and no: "nonoverlap n s" and last: "last_at n s p"
  shows "occurs_at n s q \<Longrightarrow> q \<le> p \<Longrightarrow> last_occurrence s n (length n) q = Some p"
proof (induction "p - q" arbitrary: q rule: less_induct)
  case less
  from occurs_at_bound [OF less.prems(1) n] have b: "q + length n \<le> length s" .
  from last have op: "occurs_at n s p" by (simp add: last_at_def)
  from occurs_at_bound [OF op n] have bp: "p + length n \<le> length s" .
  show ?case
  proof (cases "q = p")
    case True
    have "absent_from n s (p + length n)"
      unfolding absent_from_def list_all_iff
    proof
      fix x assume "x \<in> set [p + length n..<Suc (length s)]"
      then have "p + length n \<le> x"
        unfolding set_upt atLeastLessThan_iff by simp
      moreover from n have "0 < length n" by simp
      ultimately have "p < x" by linarith
      from last_atD [OF last this n] show "\<not> occurs_at n s x" .
    qed
    from strstr_at_absent [OF this bp] True show ?thesis
      by (subst last_occurrence.simps) simp
  next
    case False
    with less.prems(2) have lt: "q < p" by simp
    from nonoverlapD [OF no less.prems(1) op lt n] have qp: "q + length n \<le> p" .
    have "strstr_at s (q + length n) n \<noteq> None"
    proof
      assume "strstr_at s (q + length n) n = None"
      with strstr_at_None_iff [OF b] have "absent_from n s (q + length n)" by simp
      moreover from qp bp have "p \<in> set [q + length n..<Suc (length s)]"
        unfolding set_upt atLeastLessThan_iff by linarith
      ultimately have "\<not> occurs_at n s p"
        unfolding absent_from_def list_all_iff by blast
      with op show False by simp
    qed
    then obtain T where T: "strstr_at s (q + length n) n = Some T" by blast
    with strstr_at_Some_iff [OF b] have f: "first_from n s (q + length n) T" by simp
    then have oT: "occurs_at n s T" and ge: "q + length n \<le> T"
      by (simp_all add: first_from_def)
    have Tp: "T \<le> p"
    proof (rule ccontr)
      assume "\<not> T \<le> p"
      with qp have "p \<in> set [q + length n..<T]"
        unfolding set_upt atLeastLessThan_iff by linarith
      with f have "\<not> occurs_at n s p"
        unfolding first_from_def list_all_iff by blast
      with op show False by simp
    qed
    from n have "0 < length n" by simp
    with ge have "q < T" by linarith
    with Tp have "p - T < p - q" by simp
    from less.hyps [OF this oT Tp] T show ?thesis
      by (subst last_occurrence.simps) simp
  qed
qed

lemma gapResultParser_at_start:
  assumes ss: "search_start s landmark L"
    and ok: "\<not> (landmarkReqd \<and> landmark_missing s landmark)"
  shows "action_gapResultParser K s landmark landmarkReqd gap terminator
           = Inr (gapResultParser_from K s L gap terminator) \<and> L \<le> length s"
proof (cases landmark)
  case None
  with ss show ?thesis
    by (simp add: search_start_def action_gapResultParser_def)
next
  case (Some lm)
  with ss have lm: "lm \<noteq> []" "length lm < 256" "nonoverlap lm s"
    by (simp_all add: search_start_def)
  then have sz: "length lm mod 256 = length lm" by simp
  show ?thesis
  proof (cases "absent_from lm s 0")
    case True
    with ss Some have "L = 0" by (simp add: search_start_def)
    moreover from True have "strstr s lm = None"
      using strstr_at_absent [of lm s 0] by simp
    moreover from True ok Some have "\<not> landmarkReqd" by (simp add: landmark_missing_def)
    ultimately show ?thesis
      using Some by (simp add: action_gapResultParser_def)
  next
    case False
    with ss Some have L: "length lm \<le> L" and last: "last_at lm s (L - length lm)"
      by (simp_all add: search_start_def)
    from last have op: "occurs_at lm s (L - length lm)" by (simp add: last_at_def)
    from False have "strstr s lm \<noteq> None"
      using strstr_at_None_iff [of 0 s lm] by simp
    then obtain first where first: "strstr s lm = Some first" by blast
    then have of: "occurs_at lm s first" and mn: "\<forall>p<first. \<not> occurs_at lm s p"
      by (simp_all add: strstr_Some_iff)
    from mn op have "first \<le> L - length lm"
      by (meson not_le)
    from scan_reaches_last [OF lm(1,3) last of this]
    have "last_occurrence s lm (length lm) first = Some (L - length lm)" .
    moreover from occurs_at_bound [OF op lm(1)] L have "L \<le> length s" by simp
    ultimately show ?thesis
      using Some first sz L by (simp add: action_gapResultParser_def)
  qed
qed



lemma gapResultParser_from_found:
  assumes "first_from (terminator_sought terminator) s L T" and "L \<le> length s"
  shows "gapResultParser_from K s L gap terminator
           = (if unat gap \<le> T - L then ACTION_RESULT_SUCCESS K else ACTION_RESULT_ERROR K)"
proof -
  from assms(1) have "L \<le> T" by (simp add: first_from_def)
  then have "(L + unat gap \<le> T) = (unat gap \<le> T - L)" by linarith
  with strstr_at_first [OF assms] show ?thesis
    by (cases terminator) (simp_all add: gapResultParser_from_def terminator_sought_def Let_def)
qed


lemma strtol_500: "strtol (CHR ''5'' # CHR ''0'' # CHR ''0'' # CHR 0x0D # r) = (500, 3)"
  by (simp add: strtol_def isspace_def isdigit_def Let_def LONG_MAX_def LONG_MIN_def)

lemma ird_pass_restarts:
  assumes "awaiting_ird_500 K st i"
  shows "\<exists>st'. interruptCallbackISR_rx K E st chunk = Inr st' \<and> awaiting_ird_500 K st' i"
proof -
  from assms obtain a where a: "action st = Some a"
    by (auto simp: awaiting_ird_500_def)
  from assms obtain s where s: "protoDataSocket (iop st) = iopProcess_socket s"
    by (auto simp: awaiting_ird_500_def socket_tagged_def split: iopProcess.splits)
  from assms have "take 14 (primBuf (rxCtrlBlks (iop st) ! i)) = ird_header_500"
    by (simp add: awaiting_ird_500_def)
  then have p: "primBuf (rxCtrlBlks (iop st) ! i) = ird_header_500 @ drop 14 (primBuf (rxCtrlBlks (iop st) ! i))"
    by (metis append_take_drop_id)
  define rest where "rest = drop 14 (primBuf (rxCtrlBlks (iop st) ! i))"
  note p' = p [folded rest_def]
  from assms have f: "IOP_RXCTRLBLK_PRIMBUF_IRDCAP K < 500" "protoDataMode (iop st) = iopProtoDataMode_irdBytes"
     "protoDataRxCtrlBlk (iop st) = i" "i < length (rxCtrlBlks (iop st))"
     "extsnBufTail (rxCtrlBlks (iop st) ! i) = Some 500"
    by (simp_all add: awaiting_ird_500_def)
  from f(4) show ?thesis
    by (simp add: strtol_500 interruptCallbackISR_rx_def rxParseImmediate_def rxParseExtended_def
        rxConfigureIrdBuffer_def set_socketHead_def set_rxCtrlBlk_def Let_def a s p' f(1,2,3,5)
        ird_header_500_def cstr_Cons NUL_def ASCII_cCR_def ASCII_cLF_def ASCII_cCOMMA_def
        IRDRECV_HDRSZ_def SSLRECV_HDRSZ_def MQTTRECV_HDRSZ_def URC_IPRECV_def URC_SSLRECV_def
        awaiting_ird_500_def socket_tagged_def)
qed

lemma ird_passes_restart:
  "awaiting_ird_500 K st i \<Longrightarrow> \<exists>st'. isr_rx_passes K E st chunks = Inr st' \<and> awaiting_ird_500 K st' i"
proof (induction chunks arbitrary: st)
  case Nil
  then show ?case by simp
next
  case (Cons chunk chunks)
  from ird_pass_restarts [OF Cons.prems]
  obtain st1 where 1: "interruptCallbackISR_rx K E st chunk = Inr st1" and 2: "awaiting_ird_500 K st1 i"
    by blast
  from Cons.IH [OF 2] show ?case
    by (simp add: 1)
qed

lemmas isr_eval =
  interruptCallbackISR_rx_def rxOpenCtrlBlock_def rxOpenCtrlBlock_loop.simps
  IOP_RXCTRLBLK_ADVINDEX_def IOP_RXCTRLBLK_ISOCCUPIED_def set_rxCtrlBlk_def
  rxParseImmediate_def rxParseExtended_def rxConfigureIrdBuffer_def set_socketHead_def
  store_def cstr_Cons Let_def NUL_def ASCII_cCR_def ASCII_cLF_def ASCII_cCOMMA_def
  IRDRECV_HDRSZ_def SSLRECV_HDRSZ_def MQTTRECV_HDRSZ_def URC_IPRECV_def URC_SSLRECV_def
  ltem1_idle_def iop_create_def rxCtrlBlk_calloc_def hdr_example_def env_example_def action_reset_def
  action_calloc_def

lemma ird_header_pass:
  "\<exists>st1. interruptCallbackISR_rx hdr_example env_example ltem1_ird_requested ird_header_500 = Inr st1 \<and>
         awaiting_ird_500 hdr_example st1 1"
  by (simp add: isr_eval strtol_500 ltem1_ird_requested_def ird_header_500_def awaiting_ird_500_def
      socket_tagged_def)










section \<open>The action lock\<close>

text \<open>
  Claim C3. The driver has one action slot, and its command buffer is the lock. When the
  slot is locked, \<^verbatim>\<open>action_tryInvoke\<close> with \<^verbatim>\<open>retry = false\<close> returns false and the whole
  driver state, the action slot and the transmit ring included, is what it was. A call
  that returns true found the slot unlocked and leaves it locked.
\<close>

theorem tryInvoke_locked_no_side_effects:
  "(\<forall>a. action st = Some a \<and> action_locked a \<longrightarrow> action_tryInvoke K E st cmd False = Inr (False, st)) \<and>
   (\<forall>st'. action_tryInvoke K E st cmd False = Inr (True, st') \<longrightarrow>
      (\<exists>a. action st = Some a \<and> \<not> action_locked a) \<and> (\<exists>a'. action st' = Some a' \<and> action_locked a'))"
proof (intro conjI allI impI)
  fix a assume "action st = Some a \<and> action_locked a"
  then show "action_tryInvoke K E st cmd False = Inr (False, st)"
    by (simp add: action_tryInvoke_def tryActionLock_def)
next
  fix st' assume ok: "action_tryInvoke K E st cmd False = Inr (True, st')"
  then show "\<exists>a. action st = Some a \<and> \<not> action_locked a"
    by (auto simp: action_tryInvoke_def tryActionLock_def split: option.splits if_splits)
  from ok obtain st1 :: ltem1_t and a arr where
    arr: "strcat_bytes (strncpy_bytes cmd (ACTION_INVOKE_CMDSTR_SZ K)) ASCII_sCR = Inr arr"
    and tx: "iop_txSend K E ((action_reset K st1)\<lparr>action := Some (a\<lparr>cmdStr := arr, invokedAt := timing_millis E\<rparr>)\<rparr>)
               (cstr arr) (length (cstr arr) mod 65536) (deferSend E) = Inr st'"
    by (auto simp: action_tryInvoke_def Let_def split: sum.splits prod.splits option.splits if_splits)
  from strcat_bytes_locked [OF arr] have "arr \<noteq> [] \<and> hd arr \<noteq> NUL"
    by (simp add: ASCII_sCR_def ASCII_cCR_def NUL_def)
  then have "action_locked (a\<lparr>cmdStr := arr, invokedAt := timing_millis E\<rparr>)"
    by (simp add: action_locked_def)
  with action_iop_txSend [OF tx] show "\<exists>a'. action st' = Some a' \<and> action_locked a'"
    by simp
qed

theorem tryInvoke_locked_no_side_effects_witness:
  "(\<exists>a. action ltem1_busy = Some a \<and> action_locked a) \<and>
   action_tryInvoke hdr_example env_example ltem1_busy ''ATI'' False = Inr (False, ltem1_busy) \<and>
   (\<exists>st'. action_tryInvoke hdr_example env_example ltem1_idle ''AT'' False = Inr (True, st') \<and>
      (\<exists>a. action ltem1_idle = Some a \<and> \<not> action_locked a) \<and> (\<exists>a'. action st' = Some a' \<and> action_locked a'))"
proof -
  obtain a where b: "action ltem1_busy = Some a \<and> action_locked a"
    using busy_action by blast
  obtain a0 where i: "action ltem1_idle = Some a0" "\<not> action_locked a0"
    using idle_action by blast
  have "\<exists>st'. action_tryInvoke hdr_example env_example ltem1_idle ''AT'' False = Inr (True, st')"
    using invoke_unlocked [OF i, of "''AT''" hdr_example env_example False]
    by (auto simp: hdr_example_def ltem1_idle_def action_reset_def iop_create_def cstr_Cons NUL_def)
  then obtain st' where s: "action_tryInvoke hdr_example env_example ltem1_idle ''AT'' False = Inr (True, st')"
    by blast
  from tryInvoke_locked_no_side_effects [of ltem1_busy hdr_example env_example "''ATI''"] b
  have 1: "action_tryInvoke hdr_example env_example ltem1_busy ''ATI'' False = Inr (False, ltem1_busy)"
    by blast
  from tryInvoke_locked_no_side_effects [of ltem1_idle hdr_example env_example "''AT''"] s
  have 2: "(\<exists>a. action ltem1_idle = Some a \<and> \<not> action_locked a) \<and> (\<exists>a'. action st' = Some a' \<and> action_locked a')"
    by blast
  from b 1 2 s show ?thesis by blast
qed

text \<open>
  Claim C8. \<^verbatim>\<open>action_cancel\<close> resets the slot and then sets the pointer
  \<^verbatim>\<open>g_ltem1->action\<close> to NULL. The slot does not outlive the cancel: the next
  \<^verbatim>\<open>action_tryInvoke\<close> or \<^verbatim>\<open>action_getResult\<close> dereferences the NULL pointer, whatever
  the state and the arguments.
\<close>

theorem cancel_leaves_null_action:
  "action_tryInvoke K E (action_cancel K st) cmd retry = Inl NullDeref \<and>
   action_getResult K E (action_cancel K st) response responseSz timeout parser autoClose = Inl NullDeref"
  by (simp add: action_cancel_def action_tryInvoke_def tryActionLock_def action_getResult_def
      getResult_gather_def)

section \<open>The gap parser\<close>

text \<open>
  The gap rule where the scan for the landmark does find its last occurrence. Let the
  landmark, when one is given, be non-empty, shorter than 256 characters and without
  overlapping occurrences in the text; let \<open>L\<close> be the position just past its last
  occurrence, or the text start when no landmark is given or the landmark is absent and
  not required; let \<open>T\<close> be the first position at or after \<open>L\<close> where the terminator
  starts (the success token when no terminator is given). Then the parser returns Success
  when \<open>T - L \<ge> minGap\<close> and Error otherwise, so Success at equality and Error one
  below. It returns Pending when an explicit terminator does not occur from \<open>L\<close> on,
  when no terminator is given and none of the success token, the fault preamble, the
  error token and the fail token occurs from \<open>L\<close> on, and when a required landmark is
  absent.
\<close>

theorem gapResultParser_gap_rule:
  "(search_start s landmark L \<and> \<not> (landmarkReqd \<and> landmark_missing s landmark) \<longrightarrow>
      (\<forall>T. first_from (terminator_sought terminator) s L T \<longrightarrow>
          action_gapResultParser K s landmark landmarkReqd gap terminator
            = Inr (if unat gap \<le> T - L then ACTION_RESULT_SUCCESS K else ACTION_RESULT_ERROR K)) \<and>
      (terminator \<noteq> None \<and> absent_from (terminator_sought terminator) s L \<longrightarrow>
          action_gapResultParser K s landmark landmarkReqd gap terminator = Inr (ACTION_RESULT_PENDING K)) \<and>
      (terminator = None \<and> absent_from OK_COMPLETED_STRING s L \<and> absent_from CME_PREABLE s L \<and>
       absent_from ERROR_COMPLETED_STRING s L \<and> absent_from FAIL_COMPLETED_STRING s L \<longrightarrow>
          action_gapResultParser K s landmark landmarkReqd gap terminator = Inr (ACTION_RESULT_PENDING K))) \<and>
   (landmarkReqd \<and> landmark_missing s landmark \<longrightarrow>
      action_gapResultParser K s landmark landmarkReqd gap terminator = Inr (ACTION_RESULT_PENDING K))"
proof (intro conjI impI allI)
  fix T
  assume a: "search_start s landmark L \<and> \<not> (landmarkReqd \<and> landmark_missing s landmark)"
    and f: "first_from (terminator_sought terminator) s L T"
  from a gapResultParser_at_start [of s landmark L landmarkReqd K gap terminator]
  have "action_gapResultParser K s landmark landmarkReqd gap terminator
           = Inr (gapResultParser_from K s L gap terminator)" and "L \<le> length s"
    by simp_all
  with gapResultParser_from_found [OF f, of K gap]
  show "action_gapResultParser K s landmark landmarkReqd gap terminator
            = Inr (if unat gap \<le> T - L then ACTION_RESULT_SUCCESS K else ACTION_RESULT_ERROR K)"
    by simp
next
  assume a: "search_start s landmark L \<and> \<not> (landmarkReqd \<and> landmark_missing s landmark)"
    and f: "terminator \<noteq> None \<and> absent_from (terminator_sought terminator) s L"
  from a gapResultParser_at_start [of s landmark L landmarkReqd K gap terminator]
  have e: "action_gapResultParser K s landmark landmarkReqd gap terminator
           = Inr (gapResultParser_from K s L gap terminator)" and l: "L \<le> length s"
    by simp_all
  from f obtain t where t: "terminator = Some t" "absent_from t s L"
    by (auto simp: terminator_sought_def)
  show "action_gapResultParser K s landmark landmarkReqd gap terminator = Inr (ACTION_RESULT_PENDING K)"
    unfolding e using strstr_at_absent [OF t(2) l] t(1)
    by (simp add: gapResultParser_from_def Let_def)
next
  assume a: "search_start s landmark L \<and> \<not> (landmarkReqd \<and> landmark_missing s landmark)"
    and f: "terminator = None \<and> absent_from OK_COMPLETED_STRING s L \<and> absent_from CME_PREABLE s L \<and>
       absent_from ERROR_COMPLETED_STRING s L \<and> absent_from FAIL_COMPLETED_STRING s L"
  from a gapResultParser_at_start [of s landmark L landmarkReqd K gap terminator]
  have e: "action_gapResultParser K s landmark landmarkReqd gap terminator
           = Inr (gapResultParser_from K s L gap terminator)" and l: "L \<le> length s"
    by simp_all
  from f l have "strstr_at s L OK_COMPLETED_STRING = None" "strstr_at s L CME_PREABLE = None"
      "strstr_at s L ERROR_COMPLETED_STRING = None" "strstr_at s L FAIL_COMPLETED_STRING = None"
    by (simp_all add: strstr_at_absent)
  with f show "action_gapResultParser K s landmark landmarkReqd gap terminator = Inr (ACTION_RESULT_PENDING K)"
    unfolding e by (simp add: gapResultParser_from_def Let_def)
next
  assume a: "landmarkReqd \<and> landmark_missing s landmark"
  then obtain lm where lm: "landmark = Some lm" "absent_from lm s 0"
    by (auto simp: landmark_missing_def split: option.splits)
  from strstr_at_absent [OF lm(2)] have "strstr s lm = None" by simp
  with a lm show "action_gapResultParser K s landmark landmarkReqd gap terminator = Inr (ACTION_RESULT_PENDING K)"
    by (simp add: action_gapResultParser_def Let_def)
qed

theorem gapResultParser_gap_rule_witness:
  "search_start reply_qiact (Some ''+QIACT: '') 8 \<and>
   \<not> landmark_missing reply_qiact (Some ''+QIACT: '') \<and>
   first_from (terminator_sought None) reply_qiact 8 10 \<and>
   action_gapResultParser hdr_example reply_qiact (Some ''+QIACT: '') True 2 None
     = Inr (ACTION_RESULT_SUCCESS hdr_example) \<and>
   action_gapResultParser hdr_example reply_qiact (Some ''+QIACT: '') True 3 None
     = Inr (ACTION_RESULT_ERROR hdr_example) \<and>
   landmark_missing reply_qiact (Some ''+QPING: '') \<and>
   action_gapResultParser hdr_example reply_qiact (Some ''+QPING: '') True 2 None
     = Inr (ACTION_RESULT_PENDING hdr_example)"
proof -
  have h: "search_start reply_qiact (Some ''+QIACT: '') 8"
      "\<not> landmark_missing reply_qiact (Some ''+QIACT: '')"
      "first_from (terminator_sought None) reply_qiact 8 10"
      "landmark_missing reply_qiact (Some ''+QPING: '')"
    by code_simp+
  then have pre: "search_start reply_qiact (Some ''+QIACT: '') 8 \<and>
      \<not> (True \<and> landmark_missing reply_qiact (Some ''+QIACT: ''))"
    by simp
  note T = gapResultParser_gap_rule [of reply_qiact "Some ''+QIACT: ''" 8 True None hdr_example]
  from T [of 2, THEN conjunct1, THEN mp, OF pre, THEN conjunct1, THEN spec, THEN mp, OF h(3)]
  have 1: "action_gapResultParser hdr_example reply_qiact (Some ''+QIACT: '') True 2 None
     = Inr (ACTION_RESULT_SUCCESS hdr_example)"
    by simp
  from T [of 3, THEN conjunct1, THEN mp, OF pre, THEN conjunct1, THEN spec, THEN mp, OF h(3)]
  have 2: "action_gapResultParser hdr_example reply_qiact (Some ''+QIACT: '') True 3 None
     = Inr (ACTION_RESULT_ERROR hdr_example)"
    by simp
  from h(4) have m: "True \<and> landmark_missing reply_qiact (Some ''+QPING: '')" by simp
  from gapResultParser_gap_rule [of reply_qiact "Some ''+QPING: ''" 0 True None hdr_example 2,
        THEN conjunct2, THEN mp, OF m]
  have 3: "action_gapResultParser hdr_example reply_qiact (Some ''+QPING: '') True 2 None
     = Inr (ACTION_RESULT_PENDING hdr_example)" .
  from h 1 2 3 show ?thesis by blast
qed

text \<open>
  Claim C5. The loop commented \<^verbatim>\<open>find last occurrence of landmark\<close> resumes its scan
  \<^verbatim>\<open>landmarkSz\<close> characters past each match, so it misses an occurrence that overlaps
  the one before. In \<^verbatim>\<open>aaabOK\<close> the last occurrence of \<^verbatim>\<open>aa\<close> starts at 1 and ends at
  3, the terminator \<^verbatim>\<open>OK\<close> starts at 4, and the gap of 1 is below \<^verbatim>\<open>minGap = 2\<close>: the
  gap rule gives Error. The parser stops at the occurrence at 0, measures the gap from 2
  and returns Success.
\<close>

theorem gapResultParser_overlapping_landmark:
  "last_at ''aa'' ''aaabOK'' 1 \<and> first_from ''OK'' ''aaabOK'' 3 4 \<and>
   action_gapResultParser hdr_example ''aaabOK'' (Some ''aa'') True 2 (Some ''OK'')
     = Inr (ACTION_RESULT_SUCCESS hdr_example) \<and>
   ACTION_RESULT_SUCCESS hdr_example \<noteq> ACTION_RESULT_ERROR hdr_example"
  by code_simp

section \<open>The extended fault code\<close>




section \<open>The token parser\<close>

text \<open>
  Claim C7. The counting loop of \<^verbatim>\<open>action_tokenResultParser\<close> adds one to
  \<^verbatim>\<open>delimitersFound\<close> on every pass, also when \<^verbatim>\<open>strchr\<close> found no delimiter. With
  \<^verbatim>\<open>minTokens = 2\<close> the text \<^verbatim>\<open>+QIOPEN: 12\<close>, which has no comma at all, is reported
  as Success.
\<close>

theorem tokenResultParser_counts_iterations:
  "action_tokenResultParser K ''+QIOPEN: 12'' ''+QIOPEN: '' (CHR '','') 2 = Inr (ACTION_RESULT_SUCCESS K) \<and>
   CHR '','' \<notin> set ''+QIOPEN: 12''"
  by code_simp

section \<open>Bounded retry of the lock\<close>

text \<open>
  Claim C10. \<^verbatim>\<open>action_tryInvoke\<close> with \<^verbatim>\<open>retry = true\<close> polls the lock at most
  \<^verbatim>\<open>ACTIONS_RETRY_MAX\<close> (20) times, with one wait (delay, yield, socket servicing) between
  two polls; what a wait does to the driver may differ from wait to wait. If the lock is
  held at the first \<open>j\<close> polls and free at the next one, for some \<open>j < 20\<close>, the call
  does what the call without retry does in the state after \<open>j\<close> waits: it takes the
  lock and, when the command fits its buffer and the transmit ring, returns true with the
  command and a carriage return added to the transmit stream. If the lock is held at all
  20 polls, the call returns false after 19 waits. The remaining runs are those in which,
  after polls that found the lock held, a poll finds no action slot at all (the pointer
  that \<^verbatim>\<open>action_cancel\<close> sets to NULL, claim C8): there the poll dereferences NULL.
\<close>

theorem tryInvoke_retry_bounded:
  "(\<forall>j. j < unat ACTIONS_RETRY_MAX \<and> (\<forall>i<j. lock_held (after_waits E i st)) \<and>
         lock_free (after_waits E j st) \<longrightarrow>
       action_tryInvoke K E st cmd True = action_tryInvoke K E (after_waits E j st) cmd False \<and>
       (length (cstr cmd) + 2 \<le> ACTION_INVOKE_CMDSTR_SZ K \<and> ACTION_INVOKE_CMDSTR_SZ K \<le> 65536 \<and>
        length (buffer (txBuf (iop (after_waits E j st)))) + length (cstr cmd) + 1
          \<le> maxlen (txBuf (iop (after_waits E j st))) \<longrightarrow>
        (\<exists>st'. action_tryInvoke K E st cmd True = Inr (True, st') \<and>
           bridgeTx st' @ buffer (txBuf (iop st'))
             = bridgeTx (after_waits E j st) @ buffer (txBuf (iop (after_waits E j st)))
                 @ cstr cmd @ ASCII_sCR))) \<and>
   ((\<forall>i < unat ACTIONS_RETRY_MAX. lock_held (after_waits E i st)) \<longrightarrow>
       action_tryInvoke K E st cmd True = Inr (False, after_waits E (unat ACTIONS_RETRY_MAX - 1) st)) \<and>
   (\<forall>j. j < unat ACTIONS_RETRY_MAX \<and> (\<forall>i<j. lock_held (after_waits E i st)) \<and>
         action (after_waits E j st) = None \<longrightarrow>
       action_tryInvoke K E st cmd True = Inl NullDeref)"
proof (intro conjI allI impI)
  fix j
  assume h: "j < unat ACTIONS_RETRY_MAX \<and> (\<forall>i<j. lock_held (after_waits E i st)) \<and>
         lock_free (after_waits E j st)"
  then have j: "j < 20" by (simp add: ACTIONS_RETRY_MAX_def)
  from h j have l: "tryActionLock E st True = tryActionLock E (after_waits E j st) False"
    by (intro tryActionLock_retry_clears) simp_all
  then show eq: "action_tryInvoke K E st cmd True = action_tryInvoke K E (after_waits E j st) cmd False"
    by (simp add: action_tryInvoke_def)
  assume r: "length (cstr cmd) + 2 \<le> ACTION_INVOKE_CMDSTR_SZ K \<and> ACTION_INVOKE_CMDSTR_SZ K \<le> 65536 \<and>
        length (buffer (txBuf (iop (after_waits E j st)))) + length (cstr cmd) + 1
          \<le> maxlen (txBuf (iop (after_waits E j st)))"
  from h obtain a where a: "action (after_waits E j st) = Some a" "\<not> action_locked a"
    by (auto simp: lock_free_def split: option.splits)
  from r have r1: "length (cstr cmd) + 2 \<le> ACTION_INVOKE_CMDSTR_SZ K"
    and r2: "ACTION_INVOKE_CMDSTR_SZ K \<le> 65536"
    and r3: "length (buffer (txBuf (iop (after_waits E j st)))) + length (cstr cmd) + 1
          \<le> maxlen (txBuf (iop (after_waits E j st)))"
    by simp_all
  from invoke_unlocked [OF a r1 r2 r3, of E False]
  obtain st' where "action_tryInvoke K E (after_waits E j st) cmd False = Inr (True, st')"
    and "bridgeTx st' @ buffer (txBuf (iop st'))
             = bridgeTx (after_waits E j st) @ buffer (txBuf (iop (after_waits E j st)))
                 @ cstr cmd @ ASCII_sCR"
    by blast
  then show "\<exists>st'. action_tryInvoke K E st cmd True = Inr (True, st') \<and>
           bridgeTx st' @ buffer (txBuf (iop st'))
             = bridgeTx (after_waits E j st) @ buffer (txBuf (iop (after_waits E j st)))
                 @ cstr cmd @ ASCII_sCR"
    by (intro exI [of _ st']) (simp only: eq simp_thms)
next
  assume "\<forall>i < unat ACTIONS_RETRY_MAX. lock_held (after_waits E i st)"
  then have "\<forall>i\<le>19. lock_held (after_waits E i st)"
    by (simp add: ACTIONS_RETRY_MAX_def)
  from tryActionLock_retry_exhausts [OF this]
  show "action_tryInvoke K E st cmd True = Inr (False, after_waits E (unat ACTIONS_RETRY_MAX - 1) st)"
    by (simp add: action_tryInvoke_def ACTIONS_RETRY_MAX_def)
next
  fix j
  assume h: "j < unat ACTIONS_RETRY_MAX \<and> (\<forall>i<j. lock_held (after_waits E i st)) \<and>
         action (after_waits E j st) = None"
  then have "tryActionLock E st True = Inl NullDeref"
    by (intro tryActionLock_retry_null [of j]) (simp_all add: ACTIONS_RETRY_MAX_def)
  then show "action_tryInvoke K E st cmd True = Inl NullDeref"
    by (simp add: action_tryInvoke_def)
qed

text \<open>
  With the example constants and the command \<^verbatim>\<open>AT\<close> in flight: when the first two waits
  change nothing and the third releases the lock, the call with retry invokes \<^verbatim>\<open>ATI\<close>
  at the fourth poll; when no wait changes anything, it returns false and the state is
  what it was; after \<^verbatim>\<open>action_cancel\<close> the first poll dereferences NULL.
\<close>

theorem tryInvoke_retry_bounded_witness:
  "lock_held (after_waits env_releasing 0 ltem1_busy) \<and>
   lock_held (after_waits env_releasing 1 ltem1_busy) \<and>
   lock_held (after_waits env_releasing 2 ltem1_busy) \<and>
   lock_free (after_waits env_releasing 3 ltem1_busy) \<and>
   action_tryInvoke hdr_example env_releasing ltem1_busy ''ATI'' True
     = action_tryInvoke hdr_example env_releasing (action_release ltem1_busy) ''ATI'' False \<and>
   (\<exists>st'. action_tryInvoke hdr_example env_releasing ltem1_busy ''ATI'' True = Inr (True, st') \<and>
      bridgeTx st' @ buffer (txBuf (iop st'))
        = bridgeTx ltem1_busy @ buffer (txBuf (iop ltem1_busy)) @ ''ATI'' @ ASCII_sCR) \<and>
   action_tryInvoke hdr_example env_example ltem1_busy ''ATI'' True = Inr (False, ltem1_busy) \<and>
   action_tryInvoke hdr_example env_example (action_cancel hdr_example ltem1_busy) ''ATI'' True
     = Inl NullDeref"
proof -
  obtain a where a: "action ltem1_busy = Some a" "action_locked a"
    using busy_action by blast
  then have held: "lock_held ltem1_busy"
    by (simp add: lock_held_def)
  have free: "lock_free (action_release ltem1_busy)"
    using action_release_unlocks [OF a(1)] by (auto simp: lock_free_def)
  have w: "after_waits env_releasing 0 ltem1_busy = ltem1_busy"
      "after_waits env_releasing 1 ltem1_busy = ltem1_busy"
      "after_waits env_releasing 2 ltem1_busy = ltem1_busy"
      "after_waits env_releasing 3 ltem1_busy = action_release ltem1_busy"
    using after_waits_releasing [of ltem1_busy] by (simp_all add: numeral_2_eq_2 numeral_3_eq_3)
  have "\<forall>i<3. lock_held (after_waits env_releasing i ltem1_busy)"
  proof (intro allI impI)
    fix i :: nat assume "i < 3"
    then have "i = 0 \<or> i = 1 \<or> i = 2" by linarith
    with held w show "lock_held (after_waits env_releasing i ltem1_busy)" by auto
  qed
  with free have pre: "(3::nat) < unat ACTIONS_RETRY_MAX \<and>
      (\<forall>i<3. lock_held (after_waits env_releasing i ltem1_busy)) \<and>
      lock_free (after_waits env_releasing 3 ltem1_busy)"
    by (simp add: ACTIONS_RETRY_MAX_def w)
  have room: "length (cstr ''ATI'') + 2 \<le> ACTION_INVOKE_CMDSTR_SZ hdr_example \<and>
      ACTION_INVOKE_CMDSTR_SZ hdr_example \<le> 65536 \<and>
      length (buffer (txBuf (iop (after_waits env_releasing 3 ltem1_busy)))) + length (cstr ''ATI'') + 1
          \<le> maxlen (txBuf (iop (after_waits env_releasing 3 ltem1_busy)))"
    unfolding w
    by (simp add: action_release_def ltem1_busy_def ltem1_idle_def action_reset_def
        iop_create_def hdr_example_def cstr_Cons NUL_def)
  have same: "bridgeTx (action_release ltem1_busy) = bridgeTx ltem1_busy"
      "buffer (txBuf (iop (action_release ltem1_busy))) = buffer (txBuf (iop ltem1_busy))"
      "cstr ''ATI'' = ''ATI''"
    by (simp_all add: action_release_def cstr_Cons NUL_def split: option.splits)
  note T = tryInvoke_retry_bounded [of env_releasing ltem1_busy hdr_example "''ATI''"]
  from T [THEN conjunct1, rule_format, OF pre]
  have 1: "action_tryInvoke hdr_example env_releasing ltem1_busy ''ATI'' True
     = action_tryInvoke hdr_example env_releasing (after_waits env_releasing 3 ltem1_busy) ''ATI'' False"
    by (rule conjunct1)
  from T [THEN conjunct1, rule_format, OF pre, THEN conjunct2, rule_format, OF room]
  have 2: "\<exists>st'. action_tryInvoke hdr_example env_releasing ltem1_busy ''ATI'' True = Inr (True, st') \<and>
      bridgeTx st' @ buffer (txBuf (iop st'))
        = bridgeTx ltem1_busy @ buffer (txBuf (iop ltem1_busy)) @ ''ATI'' @ ASCII_sCR"
    by (simp only: w same)
  have all: "\<forall>i < unat ACTIONS_RETRY_MAX. lock_held (after_waits env_example i ltem1_busy)"
    using held by (simp add: after_waits_unchanged)
  from tryInvoke_retry_bounded [of env_example ltem1_busy hdr_example "''ATI''",
        THEN conjunct2, THEN conjunct1, THEN mp, OF all]
  have 3: "action_tryInvoke hdr_example env_example ltem1_busy ''ATI'' True = Inr (False, ltem1_busy)"
    by (simp add: after_waits_unchanged)
  have null: "(0::nat) < unat ACTIONS_RETRY_MAX \<and>
      (\<forall>i<0. lock_held (after_waits env_example i (action_cancel hdr_example ltem1_busy))) \<and>
      action (after_waits env_example 0 (action_cancel hdr_example ltem1_busy)) = None"
    by (simp add: ACTIONS_RETRY_MAX_def action_cancel_def)
  from tryInvoke_retry_bounded [of env_example "action_cancel hdr_example ltem1_busy" hdr_example "''ATI''",
        THEN conjunct2, THEN conjunct2, rule_format, OF null]
  have 4: "action_tryInvoke hdr_example env_example (action_cancel hdr_example ltem1_busy) ''ATI'' True
     = Inl NullDeref" .
  from held free w 1 2 3 4 show ?thesis by simp
qed

section \<open>Timeout of an action\<close>

text \<open>
  Claim C4. Let a call of \<^verbatim>\<open>action_getResult\<close> gather a parser result below
  \<^verbatim>\<open>ACTION_RESULT_SUCCESS\<close> (Pending when nothing was queued). With the elapsed time
  \<^verbatim>\<open>timing_millis() - invokedAt\<close> taken in 32-bit unsigned arithmetic, the call returns
  Pending when the elapsed time is at most the budget, equality included, and returns
  Timeout with the command buffer's first byte cleared (the lock released) when it is
  greater. The budget is the one installed on the first call: the \<^verbatim>\<open>timeout\<close> argument,
  or \<^verbatim>\<open>ACTION_DEFAULT_TIMEOUT_MILLIS\<close> when the argument is 0.
\<close>

theorem getResult_timeout_boundary:
  assumes "action st = Some a0"
    and "getResult_gather K st response responseSz timeout parser = Inr (parserResult, st1)"
    and "parserResult < ACTION_RESULT_SUCCESS K"
  shows "action_getResult K E st response responseSz timeout parser autoClose =
           (if timing_millis E - invokedAt a0 \<le> ucast (timeout_budget K a0 timeout)
            then Inr (ACTION_RESULT_PENDING K, st1)
            else Inr (ACTION_RESULT_TIMEOUT K, action_release st1)) \<and>
         (\<exists>a1. action st1 = Some a1 \<and> timeoutMillis a1 = timeout_budget K a0 timeout \<and>
               invokedAt a1 = invokedAt a0) \<and>
         (\<exists>a'. action (action_release st1) = Some a' \<and> \<not> action_locked a')"
  using assms by (rule getResult_below_success)

theorem getResult_timeout_boundary_witness:
  "\<exists>a0 st1. action ltem1_busy = Some a0 \<and> invokedAt a0 = 1000 \<and>
     timeout_budget hdr_example a0 0 = ACTION_DEFAULT_TIMEOUT_MILLIS hdr_example \<and>
     ACTION_DEFAULT_TIMEOUT_MILLIS hdr_example = 500 \<and>
     getResult_gather hdr_example ltem1_busy (replicate 8 NUL) 8 0 None
       = Inr (ACTION_RESULT_PENDING hdr_example, st1) \<and>
     ACTION_RESULT_PENDING hdr_example < ACTION_RESULT_SUCCESS hdr_example \<and>
     action_getResult hdr_example (env_example\<lparr>timing_millis := 1500\<rparr>) ltem1_busy (replicate 8 NUL) 8 0 None True
       = Inr (ACTION_RESULT_PENDING hdr_example, st1) \<and>
     action_getResult hdr_example (env_example\<lparr>timing_millis := 1501\<rparr>) ltem1_busy (replicate 8 NUL) 8 0 None True
       = Inr (ACTION_RESULT_TIMEOUT hdr_example, action_release st1)"
proof -
  obtain a0 where a0: "action ltem1_busy = Some a0" and f: "invokedAt a0 = 1000" "resultHead a0 = None"
    using busy_action_fields by blast
  from getResult_gather_nothing_queued [OF a0 f(2) busy_wf busy_unoccupied, of "replicate 8 NUL" 8 0 None]
  obtain st1 where g: "getResult_gather hdr_example ltem1_busy (replicate 8 NUL) 8 0 None
       = Inr (ACTION_RESULT_PENDING hdr_example, st1)"
    by blast
  have lt: "ACTION_RESULT_PENDING hdr_example < ACTION_RESULT_SUCCESS hdr_example"
    by (simp add: hdr_example_def)
  have b: "timeout_budget hdr_example a0 0 = ACTION_DEFAULT_TIMEOUT_MILLIS hdr_example"
      "ACTION_DEFAULT_TIMEOUT_MILLIS hdr_example = 500"
    by (simp_all add: timeout_budget_def f hdr_example_def)
  from getResult_timeout_boundary [OF a0 g lt, of "env_example\<lparr>timing_millis := 1500\<rparr>" True]
  have 1: "action_getResult hdr_example (env_example\<lparr>timing_millis := 1500\<rparr>) ltem1_busy (replicate 8 NUL) 8 0 None True
       = Inr (ACTION_RESULT_PENDING hdr_example, st1)"
    by (simp add: f b)
  from getResult_timeout_boundary [OF a0 g lt, of "env_example\<lparr>timing_millis := 1501\<rparr>" True]
  have 2: "action_getResult hdr_example (env_example\<lparr>timing_millis := 1501\<rparr>) ltem1_busy (replicate 8 NUL) 8 0 None True
       = Inr (ACTION_RESULT_TIMEOUT hdr_example, action_release st1)"
    by (simp add: f b)
  from a0 f b g lt 1 2 show ?thesis by blast
qed

section \<open>Draining an empty command queue\<close>




section \<open>Sized-data reassembly\<close>

text \<open>
  Claim C1. The first chunk of a reply that declares 500 bytes leaves the handler
  awaiting 500 more bytes, with an extension buffer of 500 bytes. From then on the count
  does not go down: each later pass takes the chunk's size off the counter and sets the
  mode to idle, and then calls \<^verbatim>\<open>rxParseImmediate\<close> on the slot, whose primary buffer
  still starts with the header \<^verbatim>\<open>+QIRD: 500\<close>; the header is parsed again, a new
  extension buffer is allocated, the slot is marked not ready and the counter is set to
  500 again. So after any number of continuation chunks of any sizes the slot is not
  ready, the mode is still awaiting, the counter reads 500, and the cursor stands 500
  bytes past the start of the 500-byte extension buffer.
\<close>

theorem ird_continuation_restarts_count:
  "awaiting_ird_500 K st i \<Longrightarrow>
     \<exists>st'. isr_rx_passes K E st chunks = Inr st' \<and>
           \<not> dataReady (rxCtrlBlks (iop st') ! i) \<and>
           protoDataMode (iop st') = iopProtoDataMode_irdBytes \<and>
           protoDataBytes (iop st') = 500 \<and>
           extsnBufHead (rxCtrlBlks (iop st') ! i) = Some 500 \<and>
           extsnBufTail (rxCtrlBlks (iop st') ! i) = Some 500"
proof -
  assume "awaiting_ird_500 K st i"
  from ird_passes_restart [OF this]
  obtain st' where "isr_rx_passes K E st chunks = Inr st'" and "awaiting_ird_500 K st' i"
    by blast
  then show ?thesis
    by (simp add: awaiting_ird_500_def)
qed

text \<open>
  With the example constants: the header chunk \<^verbatim>\<open>+QIRD: 500\<close>, received while the read
  request for socket 0 is in flight, opens slot 1 and leaves the handler awaiting 500
  bytes; after eight more chunks, 500 bytes in all, slot 1 is not ready and the counter
  reads 500.
\<close>

theorem ird_continuation_restarts_count_witness:
  "length (concat ird_payload_chunks) = 500 \<and>
   (\<exists>st1. interruptCallbackISR_rx hdr_example env_example ltem1_ird_requested ird_header_500 = Inr st1 \<and>
      awaiting_ird_500 hdr_example st1 1 \<and>
      (\<exists>st'. isr_rx_passes hdr_example env_example st1 ird_payload_chunks = Inr st' \<and>
           \<not> dataReady (rxCtrlBlks (iop st') ! 1) \<and>
           protoDataMode (iop st') = iopProtoDataMode_irdBytes \<and>
           protoDataBytes (iop st') = 500 \<and>
           extsnBufHead (rxCtrlBlks (iop st') ! 1) = Some 500 \<and>
           extsnBufTail (rxCtrlBlks (iop st') ! 1) = Some 500))"
proof
  show "length (concat ird_payload_chunks) = 500"
    by (simp add: ird_payload_chunks_def length_concat sum_list_replicate)
  from ird_header_pass obtain st1
    where 1: "interruptCallbackISR_rx hdr_example env_example ltem1_ird_requested ird_header_500 = Inr st1"
      and 2: "awaiting_ird_500 hdr_example st1 1"
    by blast
  note 3 = ird_continuation_restarts_count [OF 2, of env_example ird_payload_chunks]
  show "\<exists>st1. interruptCallbackISR_rx hdr_example env_example ltem1_ird_requested ird_header_500 = Inr st1 \<and>
      awaiting_ird_500 hdr_example st1 1 \<and>
      (\<exists>st'. isr_rx_passes hdr_example env_example st1 ird_payload_chunks = Inr st' \<and>
           \<not> dataReady (rxCtrlBlks (iop st') ! 1) \<and>
           protoDataMode (iop st') = iopProtoDataMode_irdBytes \<and>
           protoDataBytes (iop st') = 500 \<and>
           extsnBufHead (rxCtrlBlks (iop st') ! 1) = Some 500 \<and>
           extsnBufTail (rxCtrlBlks (iop st') ! 1) = Some 500)"
    by (rule exI [of _ st1]) (intro conjI 1 2 3)
qed

section \<open>End-phrase reassembly\<close>

text \<open>
  Claim C2. \<^verbatim>\<open>rxParseImmediate\<close> marks a subscription message ready and returns the
  mode to idle when \<^verbatim>\<open>strncmp\<close> of the end phrase and the chunk's last three bytes is
  not zero, that is when the tail differs from the phrase. With the example constants, in
  the idle driver: the first 23 bytes of the message, which stop inside the payload, make
  slot 1 ready at once with the mode idle; the whole message in one chunk, which ends in
  the end phrase, leaves slot 1 not ready and the mode awaiting the end phrase.
\<close>

theorem mqtt_end_phrase_test_inverted:
  "drop (length mqtt_partial - 3) mqtt_partial \<noteq> ASCII_sMQTTTERM hdr_example \<and>
   (\<exists>st'. interruptCallbackISR_rx hdr_example env_example ltem1_idle mqtt_partial = Inr st' \<and>
       dataReady (rxCtrlBlks (iop st') ! 1) \<and> protoDataMode (iop st') = iopProtoDataMode_idle) \<and>
   drop (length mqtt_complete - 3) mqtt_complete = ASCII_sMQTTTERM hdr_example \<and>
   (\<exists>st'. interruptCallbackISR_rx hdr_example env_example ltem1_idle mqtt_complete = Inr st' \<and>
       \<not> dataReady (rxCtrlBlks (iop st') ! 1) \<and> protoDataMode (iop st') = iopProtoDataMode_eotPhrase)"
proof (intro conjI)
  show "drop (length mqtt_partial - 3) mqtt_partial \<noteq> ASCII_sMQTTTERM hdr_example"
    by (simp add: mqtt_partial_def hdr_example_def ASCII_cCR_def ASCII_cLF_def)
  show "drop (length mqtt_complete - 3) mqtt_complete = ASCII_sMQTTTERM hdr_example"
    by (simp add: mqtt_partial_def mqtt_complete_def hdr_example_def)
  show "\<exists>st'. interruptCallbackISR_rx hdr_example env_example ltem1_idle mqtt_partial = Inr st' \<and>
       dataReady (rxCtrlBlks (iop st') ! 1) \<and> protoDataMode (iop st') = iopProtoDataMode_idle"
    by (simp add: isr_eval mqtt_partial_def)
  show "\<exists>st'. interruptCallbackISR_rx hdr_example env_example ltem1_idle mqtt_complete = Inr st' \<and>
       \<not> dataReady (rxCtrlBlks (iop st') ! 1) \<and> protoDataMode (iop st') = iopProtoDataMode_eotPhrase"
    by (simp add: isr_eval mqtt_partial_def mqtt_complete_def)
qed

end
